theory Spec2Isabelle
  imports Main "HOL-Library.Word"
begin

section \<open>Vote accounting of the consensus package: VoteSet and HeightVoteSet\<close>

text \<open>
  A shallow embedding of \<^verbatim>\<open>consensus/vote_set.go\<close> and
  \<^verbatim>\<open>consensus/height_vote_set.go\<close>. Every method takes the receiver's state and
  returns the new one; a Go panic is the \<open>Inl\<close> branch of a sum. The mutexes are left
  out: each method body runs under its lock, so the sequential reading is the one modelled.
  Go's \<^verbatim>\<open>int\<close> (heights, rounds, indices) is an unbounded \<open>int\<close>; the
  \<^verbatim>\<open>int64\<close> voting powers are integers with the two's complement wrap-around
  written out at every arithmetic operation of the source.
\<close>

subsection \<open>Machine arithmetic\<close>

definition int64 :: "int \<Rightarrow> int" where
  "int64 x = (x + 2 ^ 63) mod 2 ^ 64 - 2 ^ 63"

text \<open>Go's integer division truncates towards zero.\<close>

definition quot :: "int \<Rightarrow> int \<Rightarrow> int" where
  "quot a b = (if (a < 0) = (b < 0) then \<bar>a\<bar> div \<bar>b\<bar> else - (\<bar>a\<bar> div \<bar>b\<bar>))"

subsection \<open>Data\<close>

type_synonym byte = "8 word"
type_synonym bytes = "byte list"

text \<open>
  A byte slice is a list; Go's nil slice and empty slice are both \<open>[]\<close>
  (\<^verbatim>\<open>bytes.Equal\<close> and \<^verbatim>\<open>len\<close> do not tell them apart).
\<close>

text \<open>The fields \<^verbatim>\<open>Total\<close> and \<^verbatim>\<open>Hash\<close> of \<^verbatim>\<open>types.PartSetHeader\<close>.\<close>

record PartSetHeader =
  PartsTotal :: nat
  PartsHash :: bytes

record Vote =
  Height :: int
  Round :: int
  Type :: byte
  BlockHash :: bytes
  BlockParts :: PartSetHeader
  Signature :: bytes

record Validator =
  Address :: bytes
  PubKey :: bytes
  VotingPower :: int

type_synonym ValidatorSet = "Validator list"

datatype ErrVote =
    ErrVoteUnexpectedStep
  | ErrVoteInvalidAccount
  | ErrVoteInvalidSignature
  | ErrVoteInvalidBlockHash
  | ErrVoteConflictingSignature (VoteA: Vote) (VoteB: Vote)

datatype panic =
    PanicHeightZero
  | PanicSetRound
  | PanicAddRoundExisting
  | PanicUnexpectedVoteType
  | PanicMakeValidationType
  | PanicMakeValidationNoMaj23
  | PanicGetByAddressNil
  | PanicIndexOutOfRange
  | PanicNilDereference

text \<open>
  Modelled from the spec: the two vote kinds of the \<^verbatim>\<open>types\<close> package, which is
  not among the sources. They are two distinct bytes; nothing below depends on more.
\<close>

definition VoteTypePrevote :: byte where
  "VoteTypePrevote = 1"

definition VoteTypePrecommit :: byte where
  "VoteTypePrecommit = 2"

text \<open>
  Modelled from the spec: \<^verbatim>\<open>PartSetHeader.Equals\<close> of the \<^verbatim>\<open>types\<close>
  package; two headers are equal iff both fields match.
\<close>

definition PartSetHeader_Equals :: "PartSetHeader \<Rightarrow> PartSetHeader \<Rightarrow> bool" where
  "PartSetHeader_Equals a b = (PartsTotal a = PartsTotal b \<and> PartsHash a = PartsHash b)"

definition PartSetHeader_zero :: PartSetHeader where
  "PartSetHeader_zero = \<lparr>PartsTotal = 0, PartsHash = []\<rparr>"

subsection \<open>The validator set (external)\<close>

text \<open>
  Modelled from the spec: the \<^verbatim>\<open>state.ValidatorSet\<close> the vote sets consume is not
  among the sources. It is an ordered sequence of validators with \<^verbatim>\<open>Size\<close>,
  \<^verbatim>\<open>TotalVotingPower\<close> (the \<^verbatim>\<open>int64\<close> sum of all powers), lookup by index and
  by address (absent is \<open>None\<close>), and iteration in index order that stops when the
  callback returns true.
\<close>

definition Size :: "ValidatorSet \<Rightarrow> int" where
  "Size vals = int (length vals)"

definition TotalVotingPower :: "ValidatorSet \<Rightarrow> int" where
  "TotalVotingPower vals = foldl (\<lambda>acc v. int64 (acc + VotingPower v)) 0 vals"

definition GetByIndex :: "ValidatorSet \<Rightarrow> int \<Rightarrow> Validator option" where
  "GetByIndex vals i = (if 0 \<le> i \<and> i < int (length vals) then Some (vals ! nat i) else None)"

fun GetByAddress_from :: "nat \<Rightarrow> Validator list \<Rightarrow> bytes \<Rightarrow> (int \<times> Validator) option" where
  "GetByAddress_from i [] a = None"
| "GetByAddress_from i (v # vs) a =
     (if Address v = a then Some (int i, v) else GetByAddress_from (Suc i) vs a)"

definition GetByAddress :: "ValidatorSet \<Rightarrow> bytes \<Rightarrow> (int \<times> Validator) option" where
  "GetByAddress vals a = GetByAddress_from 0 vals a"

fun Iterate_from ::
  "nat \<Rightarrow> Validator list \<Rightarrow> (int \<Rightarrow> Validator \<Rightarrow> 's \<Rightarrow> panic + bool \<times> 's) \<Rightarrow> 's \<Rightarrow> panic + 's" where
  "Iterate_from i [] fn s = Inr s"
| "Iterate_from i (v # vs) fn s =
     (case fn (int i) v s of
        Inl p \<Rightarrow> Inl p
      | Inr (stop, s') \<Rightarrow> if stop then Inr s' else Iterate_from (Suc i) vs fn s')"

definition Iterate ::
  "ValidatorSet \<Rightarrow> (int \<Rightarrow> Validator \<Rightarrow> 's \<Rightarrow> panic + bool \<times> 's) \<Rightarrow> 's \<Rightarrow> panic + 's" where
  "Iterate vals fn s = Iterate_from 0 vals fn s"

subsection \<open>Signing and encoding (external)\<close>

text \<open>
  The signature check of \<^verbatim>\<open>addVote\<close> is
  \<^verbatim>\<open>val.PubKey.VerifyBytes(account.SignBytes(config.GetString("chain_id"), vote), vote.Signature)\<close>
  and the tally key appends \<^verbatim>\<open>binary.BinaryBytes(vote.BlockParts)\<close> to the block
  hash. The three functions and the configured chain id live outside the sources and are
  parameters of the model.
\<close>

record Env =
  chain_id :: string
  SignBytes :: "string \<Rightarrow> Vote \<Rightarrow> bytes"
  VerifyBytes :: "bytes \<Rightarrow> bytes \<Rightarrow> bytes \<Rightarrow> bool"
  BinaryBytes :: "PartSetHeader \<Rightarrow> bytes"

subsection \<open>BitArray (external)\<close>

text \<open>
  Modelled from the spec: the presence bitmap of the \<^verbatim>\<open>common\<close> package, one bit per
  validator index; setting an index out of range changes nothing.
\<close>

type_synonym BitArray = "bool list"

definition NewBitArray :: "int \<Rightarrow> BitArray" where
  "NewBitArray n = replicate (nat n) False"

definition SetIndex :: "BitArray \<Rightarrow> int \<Rightarrow> bool \<Rightarrow> BitArray" where
  "SetIndex ba i v = (if 0 \<le> i \<and> i < int (length ba) then ba[nat i := v] else ba)"

subsection \<open>VoteSet\<close>

record VoteSet =
  vs_height :: int
  vs_round :: int
  vs_type :: byte
  valSet :: ValidatorSet
  votes :: "Vote option list"
  votesBitArray :: BitArray
  votesByBlock :: "bytes \<rightharpoonup> int"
  totalVotes :: int
  maj23Hash :: bytes
  maj23Parts :: PartSetHeader
  maj23Exists :: bool

type_synonym add_result = "bool \<times> int \<times> ErrVote option"

text \<open>\<^verbatim>\<open>NewVoteSet\<close> (lines 38 to 52) panics at height 0.\<close>

definition NewVoteSet :: "int \<Rightarrow> int \<Rightarrow> byte \<Rightarrow> ValidatorSet \<Rightarrow> panic + VoteSet" where
  "NewVoteSet height round type vals =
     (if height = 0 then Inl PanicHeightZero
      else Inr \<lparr>vs_height = height, vs_round = round, vs_type = type, valSet = vals,
                votes = replicate (nat (Size vals)) None,
                votesBitArray = NewBitArray (Size vals),
                votesByBlock = Map.empty,
                totalVotes = 0,
                maj23Hash = [], maj23Parts = PartSetHeader_zero, maj23Exists = False\<rparr>)"

text \<open>Reading a Go map of \<^verbatim>\<open>int64\<close> at a missing key gives 0.\<close>

definition tally :: "(bytes \<rightharpoonup> int) \<Rightarrow> bytes \<Rightarrow> int" where
  "tally m k = (case m k of None \<Rightarrow> 0 | Some n \<Rightarrow> n)"

text \<open>
  \<^verbatim>\<open>addVote\<close> (vote_set.go, lines 116 to 160), check by check: the step, the signature,
  the slot (reading \<^verbatim>\<open>votes[valIndex]\<close> out of range panics), then the store, the
  tallies and the latch. The sum, the difference and the doubled total are \<^verbatim>\<open>int64\<close>
  operations.
\<close>

definition addVote :: "Env \<Rightarrow> VoteSet \<Rightarrow> Validator \<Rightarrow> int \<Rightarrow> Vote \<Rightarrow> panic + add_result \<times> VoteSet" where
  "addVote env voteSet val valIndex vote =
     (if Height vote \<noteq> vs_height voteSet then Inr ((False, 0, Some ErrVoteUnexpectedStep), voteSet)
      else if Round vote \<noteq> vs_round voteSet then Inr ((False, 0, Some ErrVoteUnexpectedStep), voteSet)
      else if Type vote \<noteq> vs_type voteSet then Inr ((False, 0, Some ErrVoteUnexpectedStep), voteSet)
      else if \<not> VerifyBytes env (PubKey val) (SignBytes env (chain_id env) vote) (Signature vote)
        then Inr ((False, 0, Some ErrVoteInvalidSignature), voteSet)
      else if \<not> (0 \<le> valIndex \<and> valIndex < int (length (votes voteSet))) then Inl PanicIndexOutOfRange
      else
        (case votes voteSet ! nat valIndex of
           Some existingVote \<Rightarrow>
             if BlockHash existingVote = BlockHash vote
             then Inr ((False, valIndex, None), voteSet)
             else Inr ((False, valIndex, Some (ErrVoteConflictingSignature existingVote vote)), voteSet)
         | None \<Rightarrow>
             let blockKey = BlockHash vote @ BinaryBytes env (BlockParts vote);
                 totalBlockHashVotes = int64 (tally (votesByBlock voteSet) blockKey + VotingPower val);
                 added = voteSet\<lparr>votes := (votes voteSet)[nat valIndex := Some vote],
                                 votesBitArray := SetIndex (votesBitArray voteSet) valIndex True,
                                 votesByBlock := (votesByBlock voteSet)(blockKey \<mapsto> totalBlockHashVotes),
                                 totalVotes := int64 (totalVotes voteSet + VotingPower val)\<rparr>;
                 twoThirds = quot (int64 (TotalVotingPower (valSet voteSet) * 2)) 3
             in if totalBlockHashVotes > twoThirds \<and>
                   int64 (totalBlockHashVotes - VotingPower val) \<le> twoThirds
                then Inr ((True, valIndex, None),
                          added\<lparr>maj23Hash := BlockHash vote, maj23Parts := BlockParts vote,
                                 maj23Exists := True\<rparr>)
                else Inr ((True, valIndex, None), added)))"

text \<open>
  \<^verbatim>\<open>AddByIndex\<close> and \<^verbatim>\<open>AddByAddress\<close> (lines 82 to 114) look the signer up and
  hand over to \<^verbatim>\<open>addVote\<close>; a signer that is not a validator is
  \<open>ErrVoteInvalidAccount\<close>.
\<close>

definition addByIndex :: "Env \<Rightarrow> VoteSet \<Rightarrow> int \<Rightarrow> Vote \<Rightarrow> panic + add_result \<times> VoteSet" where
  "addByIndex env voteSet valIndex vote =
     (case GetByIndex (valSet voteSet) valIndex of
        None \<Rightarrow> Inr ((False, 0, Some ErrVoteInvalidAccount), voteSet)
      | Some val \<Rightarrow> addVote env voteSet val valIndex vote)"

definition VoteSet_AddByIndex :: "Env \<Rightarrow> VoteSet \<Rightarrow> int \<Rightarrow> Vote \<Rightarrow> panic + add_result \<times> VoteSet" where
  "VoteSet_AddByIndex env voteSet valIndex vote = addByIndex env voteSet valIndex vote"

definition VoteSet_AddByAddress :: "Env \<Rightarrow> VoteSet \<Rightarrow> bytes \<Rightarrow> Vote \<Rightarrow> panic + add_result \<times> VoteSet" where
  "VoteSet_AddByAddress env voteSet address vote =
     (case GetByAddress (valSet voteSet) address of
        None \<Rightarrow> Inr ((False, 0, Some ErrVoteInvalidAccount), voteSet)
      | Some (valIndex, val) \<Rightarrow> addVote env voteSet val valIndex vote)"


subsection \<open>VoteSet accessors\<close>

text \<open>
  A \<^verbatim>\<open>*VoteSet\<close> receiver that may be nil is a \<open>VoteSet option\<close>. The accessors
  that test \<^verbatim>\<open>voteSet == nil\<close> return their default there; the ones that do not
  lock \<^verbatim>\<open>voteSet.mtx\<close> first, which dereferences the nil pointer.
\<close>

definition VoteSet_Height :: "VoteSet option \<Rightarrow> int" where
  "VoteSet_Height p = (case p of None \<Rightarrow> 0 | Some voteSet \<Rightarrow> vs_height voteSet)"

definition VoteSet_Round :: "VoteSet option \<Rightarrow> int" where
  "VoteSet_Round p = (case p of None \<Rightarrow> 0 | Some voteSet \<Rightarrow> vs_round voteSet)"

definition VoteSet_Size :: "VoteSet option \<Rightarrow> int" where
  "VoteSet_Size p = (case p of None \<Rightarrow> 0 | Some voteSet \<Rightarrow> Size (valSet voteSet))"

definition VoteSet_BitArray :: "VoteSet option \<Rightarrow> BitArray option" where
  "VoteSet_BitArray p = (case p of None \<Rightarrow> None | Some voteSet \<Rightarrow> Some (votesBitArray voteSet))"

definition VoteSet_GetByIndex :: "VoteSet option \<Rightarrow> int \<Rightarrow> panic + Vote option" where
  "VoteSet_GetByIndex p valIndex =
     (case p of
        None \<Rightarrow> Inl PanicNilDereference
      | Some voteSet \<Rightarrow>
          if 0 \<le> valIndex \<and> valIndex < int (length (votes voteSet))
          then Inr (votes voteSet ! nat valIndex) else Inl PanicIndexOutOfRange)"

definition VoteSet_GetByAddress :: "VoteSet option \<Rightarrow> bytes \<Rightarrow> panic + Vote option" where
  "VoteSet_GetByAddress p address =
     (case p of
        None \<Rightarrow> Inl PanicNilDereference
      | Some voteSet \<Rightarrow>
          (case GetByAddress (valSet voteSet) address of
             None \<Rightarrow> Inl PanicGetByAddressNil
           | Some (valIndex, val) \<Rightarrow>
               if 0 \<le> valIndex \<and> valIndex < int (length (votes voteSet))
               then Inr (votes voteSet ! nat valIndex) else Inl PanicIndexOutOfRange))"

definition HasTwoThirdsMajority :: "VoteSet option \<Rightarrow> bool" where
  "HasTwoThirdsMajority p = (case p of None \<Rightarrow> False | Some voteSet \<Rightarrow> maj23Exists voteSet)"

definition HasTwoThirdsAny :: "VoteSet option \<Rightarrow> bool" where
  "HasTwoThirdsAny p =
     (case p of
        None \<Rightarrow> False
      | Some voteSet \<Rightarrow> totalVotes voteSet > quot (int64 (TotalVotingPower (valSet voteSet) * 2)) 3)"

definition TwoThirdsMajority :: "VoteSet option \<Rightarrow> panic + bytes \<times> PartSetHeader \<times> bool" where
  "TwoThirdsMajority p =
     (case p of
        None \<Rightarrow> Inl PanicNilDereference
      | Some voteSet \<Rightarrow>
          if maj23Exists voteSet then Inr (maj23Hash voteSet, maj23Parts voteSet, True)
          else Inr ([], PartSetHeader_zero, False))"

subsection \<open>Validation\<close>

record Validation =
  val_Precommits :: "Vote option list"

text \<open>The callback that \<^verbatim>\<open>MakeValidation\<close> hands to \<^verbatim>\<open>Iterate\<close>; it never stops the iteration.\<close>

definition MakeValidation_fn ::
  "VoteSet \<Rightarrow> int \<Rightarrow> Validator \<Rightarrow> Vote option list \<Rightarrow> panic + bool \<times> Vote option list" where
  "MakeValidation_fn voteSet valIndex val precommits =
     (if \<not> (0 \<le> valIndex \<and> valIndex < int (length (votes voteSet))) then Inl PanicIndexOutOfRange
      else
        (case votes voteSet ! nat valIndex of
           None \<Rightarrow> Inr (False, precommits)
         | Some vote \<Rightarrow>
             if BlockHash vote \<noteq> maj23Hash voteSet then Inr (False, precommits)
             else if \<not> PartSetHeader_Equals (BlockParts vote) (maj23Parts voteSet)
               then Inr (False, precommits)
             else if \<not> valIndex < int (length precommits) then Inl PanicIndexOutOfRange
             else Inr (False, precommits[nat valIndex := Some vote])))"

text \<open>The receiver of \<^verbatim>\<open>MakeValidation\<close> is a VoteSet that exists (a non-nil pointer).\<close>

definition MakeValidation :: "VoteSet \<Rightarrow> panic + Validation" where
  "MakeValidation voteSet =
     (if vs_type voteSet \<noteq> VoteTypePrecommit then Inl PanicMakeValidationType
      else if length (maj23Hash voteSet) = 0 then Inl PanicMakeValidationNoMaj23
      else
        (case Iterate (valSet voteSet) (MakeValidation_fn voteSet)
                (replicate (nat (Size (valSet voteSet))) None) of
           Inl p \<Rightarrow> Inl p
         | Inr precommits \<Rightarrow> Inr \<lparr>val_Precommits = precommits\<rparr>))"

subsection \<open>HeightVoteSet\<close>

record RoundVoteSet =
  Prevotes :: "VoteSet option"
  Precommits :: "VoteSet option"

record HeightVoteSet =
  hvs_height :: int
  hvs_valSet :: ValidatorSet
  hvs_round :: int
  roundVoteSets :: "int \<rightharpoonup> RoundVoteSet"
  peerCatchupRounds :: "string \<rightharpoonup> int"

text \<open>
  \<^verbatim>\<open>addRound\<close> (height_vote_set.go, lines 77 to 87) panics when the round has an
  entry; \<^verbatim>\<open>NewHeightVoteSet\<close> (lines 39 to 49) adds round 0.
\<close>

definition addRound :: "HeightVoteSet \<Rightarrow> int \<Rightarrow> panic + HeightVoteSet" where
  "addRound hvs round =
     (case roundVoteSets hvs round of
        Some rvs \<Rightarrow> Inl PanicAddRoundExisting
      | None \<Rightarrow>
          (case NewVoteSet (hvs_height hvs) round VoteTypePrevote (hvs_valSet hvs) of
             Inl p \<Rightarrow> Inl p
           | Inr prevotes \<Rightarrow>
               (case NewVoteSet (hvs_height hvs) round VoteTypePrecommit (hvs_valSet hvs) of
                  Inl p \<Rightarrow> Inl p
                | Inr precommits \<Rightarrow>
                    Inr (hvs\<lparr>roundVoteSets := (roundVoteSets hvs)
                              (round \<mapsto> \<lparr>Prevotes = Some prevotes, Precommits = Some precommits\<rparr>)\<rparr>))))"

definition NewHeightVoteSet :: "int \<Rightarrow> ValidatorSet \<Rightarrow> panic + HeightVoteSet" where
  "NewHeightVoteSet height vals =
     (case addRound \<lparr>hvs_height = height, hvs_valSet = vals, hvs_round = 0,
                      roundVoteSets = Map.empty, peerCatchupRounds = Map.empty\<rparr> 0 of
        Inl p \<Rightarrow> Inl p
      | Inr hvs \<Rightarrow> Inr (hvs\<lparr>hvs_round := 0\<rparr>))"

definition HeightVoteSet_Height :: "HeightVoteSet \<Rightarrow> int" where
  "HeightVoteSet_Height hvs = hvs_height hvs"

definition HeightVoteSet_Round :: "HeightVoteSet \<Rightarrow> int" where
  "HeightVoteSet_Round hvs = hvs_round hvs"

text \<open>
  The loop of \<^verbatim>\<open>SetRound\<close>, from \<open>r\<close> up to \<open>round\<close>. Its body calls
  \<^verbatim>\<open>hvs.addRound(round)\<close>: the argument is the target round, not the loop variable.
\<close>

function SetRound_loop :: "HeightVoteSet \<Rightarrow> int \<Rightarrow> int \<Rightarrow> panic + HeightVoteSet" where
  "SetRound_loop hvs r round =
     (if r \<le> round then
        (case roundVoteSets hvs r of
           Some rvs \<Rightarrow> SetRound_loop hvs (r + 1) round
         | None \<Rightarrow>
             (case addRound hvs round of
                Inl p \<Rightarrow> Inl p
              | Inr hvs' \<Rightarrow> SetRound_loop hvs' (r + 1) round))
      else Inr hvs)"
  by pat_completeness auto
termination
  by (relation "measure (\<lambda>(hvs, r, round). nat (round + 1 - r))") auto

declare SetRound_loop.simps [simp del]

definition SetRound :: "HeightVoteSet \<Rightarrow> int \<Rightarrow> panic + HeightVoteSet" where
  "SetRound hvs round =
     (if hvs_round hvs \<noteq> 0 \<and> round < hvs_round hvs + 1 then Inl PanicSetRound
      else
        (case SetRound_loop hvs (hvs_round hvs + 1) round of
           Inl p \<Rightarrow> Inl p
         | Inr hvs' \<Rightarrow> Inr (hvs'\<lparr>hvs_round := round\<rparr>)))"

text \<open>
  \<^verbatim>\<open>getVoteSet\<close> (lines 136 to 149) returns nil for a round without an entry, before
  it looks at the vote type.
\<close>

definition getVoteSet :: "HeightVoteSet \<Rightarrow> int \<Rightarrow> byte \<Rightarrow> panic + VoteSet option" where
  "getVoteSet hvs round type =
     (case roundVoteSets hvs round of
        None \<Rightarrow> Inr None
      | Some rvs \<Rightarrow>
          if type = VoteTypePrevote then Inr (Prevotes rvs)
          else if type = VoteTypePrecommit then Inr (Precommits rvs)
          else Inl PanicUnexpectedVoteType)"

text \<open>
  The VoteSet that \<^verbatim>\<open>getVoteSet\<close> returned is shared with the map entry through its
  pointer; after the delegated add has changed it, the entry holds the changed VoteSet.
\<close>

definition putVoteSet :: "HeightVoteSet \<Rightarrow> int \<Rightarrow> byte \<Rightarrow> VoteSet \<Rightarrow> HeightVoteSet" where
  "putVoteSet hvs round type voteSet =
     (case roundVoteSets hvs round of
        None \<Rightarrow> hvs
      | Some rvs \<Rightarrow>
          hvs\<lparr>roundVoteSets := (roundVoteSets hvs)
                (round \<mapsto> (if type = VoteTypePrevote then rvs\<lparr>Prevotes := Some voteSet\<rparr>
                            else rvs\<lparr>Precommits := Some voteSet\<rparr>))\<rparr>)"

text \<open>
  \<^verbatim>\<open>HeightVoteSet.AddByAddress\<close> (lines 91 to 109). In the branch for a nil VoteSet
  both arms fall through to the bare \<^verbatim>\<open>return\<close> of line 105, which returns the
  zero values of the named results.
\<close>

definition HeightVoteSet_AddByAddress ::
  "Env \<Rightarrow> HeightVoteSet \<Rightarrow> bytes \<Rightarrow> Vote \<Rightarrow> string \<Rightarrow> panic + add_result \<times> HeightVoteSet" where
  "HeightVoteSet_AddByAddress env hvs address vote peerKey =
     (case getVoteSet hvs (Round vote) (Type vote) of
        Inl p \<Rightarrow> Inl p
      | Inr None \<Rightarrow>
          (case peerCatchupRounds hvs peerKey of
             None \<Rightarrow>
               (case addRound hvs (Round vote) of
                  Inl p \<Rightarrow> Inl p
                | Inr hvs' \<Rightarrow>
                    Inr ((False, 0, None),
                         hvs'\<lparr>peerCatchupRounds := (peerCatchupRounds hvs')(peerKey \<mapsto> Round vote)\<rparr>))
           | Some r \<Rightarrow> Inr ((False, 0, None), hvs))
      | Inr (Some voteSet) \<Rightarrow>
          (case VoteSet_AddByAddress env voteSet address vote of
             Inl p \<Rightarrow> Inl p
           | Inr (res, voteSet') \<Rightarrow> Inr (res, putVoteSet hvs (Round vote) (Type vote) voteSet')))"

definition HeightVoteSet_Prevotes :: "HeightVoteSet \<Rightarrow> int \<Rightarrow> panic + VoteSet option" where
  "HeightVoteSet_Prevotes hvs round = getVoteSet hvs round VoteTypePrevote"

definition HeightVoteSet_Precommits :: "HeightVoteSet \<Rightarrow> int \<Rightarrow> panic + VoteSet option" where
  "HeightVoteSet_Precommits hvs round = getVoteSet hvs round VoteTypePrecommit"

text \<open>The loop of \<^verbatim>\<open>POLRound\<close>, from \<open>r\<close> down to 0.\<close>

function POLRound_loop :: "HeightVoteSet \<Rightarrow> int \<Rightarrow> panic + int" where
  "POLRound_loop hvs r =
     (if r \<ge> 0 then
        (case getVoteSet hvs r VoteTypePrevote of
           Inl p \<Rightarrow> Inl p
         | Inr voteSet \<Rightarrow>
             if HasTwoThirdsMajority voteSet then Inr r else POLRound_loop hvs (r - 1))
      else Inr (- 1))"
  by pat_completeness auto
termination
  by (relation "measure (\<lambda>(hvs, r). nat (r + 1))") auto

declare POLRound_loop.simps [simp del]

definition POLRound :: "HeightVoteSet \<Rightarrow> panic + int" where
  "POLRound hvs = POLRound_loop hvs (hvs_round hvs)"


subsection \<open>What MakeValidation keeps of a slot\<close>

text \<open>
  The spec's words for one slot of the Validation: the stored vote when it matches maj23 in
  both block hash and parts header, empty otherwise.
\<close>

definition keep_maj23 :: "VoteSet \<Rightarrow> Vote option \<Rightarrow> Vote option" where
  "keep_maj23 voteSet slot =
     (case slot of
        None \<Rightarrow> None
      | Some vote \<Rightarrow>
          if BlockHash vote = maj23Hash voteSet \<and>
             PartSetHeader_Equals (BlockParts vote) (maj23Parts voteSet)
          then Some vote else None)"

text \<open>Whether round \<open>r\<close> of a HeightVoteSet has a +2/3 prevote majority, through the accessors.\<close>

definition prevote_maj23 :: "HeightVoteSet \<Rightarrow> int \<Rightarrow> bool" where
  "prevote_maj23 hvs r =
     (case HeightVoteSet_Prevotes hvs r of Inl p \<Rightarrow> False | Inr voteSet \<Rightarrow> HasTwoThirdsMajority voteSet)"

subsection \<open>Tallies as sums over the slots\<close>

text \<open>
  The spec's invariant for the tallies, in its words: the tally of a block key is the sum
  of the voting powers of the validators whose stored vote has that key. \<open>blockKey\<close> is the
  key \<^verbatim>\<open>addVote\<close> builds for a vote.
\<close>

definition blockKey :: "Env \<Rightarrow> Vote \<Rightarrow> bytes" where
  "blockKey env vote = BlockHash vote @ BinaryBytes env (BlockParts vote)"

definition slot_power :: "Env \<Rightarrow> VoteSet \<Rightarrow> bytes \<Rightarrow> nat \<Rightarrow> int" where
  "slot_power env voteSet K j =
     (case votes voteSet ! j of
        None \<Rightarrow> 0
      | Some vote \<Rightarrow> if blockKey env vote = K then VotingPower (valSet voteSet ! j) else 0)"

definition counted :: "Env \<Rightarrow> VoteSet \<Rightarrow> bytes \<Rightarrow> int" where
  "counted env voteSet K = (\<Sum>j<length (votes voteSet). slot_power env voteSet K j)"

text \<open>
  A validator set whose powers are not negative and whose doubled total fits an
  \<^verbatim>\<open>int64\<close>, so that no operation of \<^verbatim>\<open>addVote\<close> wraps around.
\<close>

definition no_overflow :: "ValidatorSet \<Rightarrow> bool" where
  "no_overflow vals =
     (list_all (\<lambda>v. 0 \<le> VotingPower v) vals \<and> 2 * sum_list (map VotingPower vals) < 2 ^ 63)"

text \<open>
  A VoteSet with one slot per validator whose tallies are these sums and whose latched
  identifier, when there is one, has a tally above the threshold.
\<close>

definition tallied :: "Env \<Rightarrow> VoteSet \<Rightarrow> bool" where
  "tallied env voteSet =
     (length (votes voteSet) = length (valSet voteSet) \<and>
      (\<forall>K. tally (votesByBlock voteSet) K = counted env voteSet K) \<and>
      (if maj23Exists voteSet
       then quot (int64 (TotalVotingPower (valSet voteSet) * 2)) 3
              < tally (votesByBlock voteSet) (maj23Hash voteSet @ BinaryBytes env (maj23Parts voteSet))
       else True))"

text \<open>A sequence of \<^verbatim>\<open>AddByIndex\<close> calls on one VoteSet.\<close>

fun AddByIndex_all :: "Env \<Rightarrow> VoteSet \<Rightarrow> (int \<times> Vote) list \<Rightarrow> panic + VoteSet" where
  "AddByIndex_all env voteSet [] = Inr voteSet"
| "AddByIndex_all env voteSet ((valIndex, vote) # rest) =
     (case VoteSet_AddByIndex env voteSet valIndex vote of
        Inl p \<Rightarrow> Inl p
      | Inr (res, voteSet') \<Rightarrow> AddByIndex_all env voteSet' rest)"

subsection \<open>Concrete inputs\<close>

text \<open>
  A toy signing scheme for the concrete runs: the sign-bytes of a vote are its block hash, a
  signature is valid when it is the public key followed by the sign-bytes, and a parts
  header encodes as its hash. All concrete votes are at height 1.
\<close>

definition demo_env :: Env where
  "demo_env = \<lparr>chain_id = ''tendermint_test'',
               SignBytes = (\<lambda>chain vote. BlockHash vote),
               VerifyBytes = (\<lambda>pubKey msg sig. sig = pubKey @ msg),
               BinaryBytes = (\<lambda>parts. PartsHash parts)\<rparr>"

definition mkVote :: "int \<Rightarrow> byte \<Rightarrow> bytes \<Rightarrow> bytes \<Rightarrow> bytes \<Rightarrow> Vote" where
  "mkVote round type hash partsHash sig =
     \<lparr>Height = 1, Round = round, Type = type, BlockHash = hash,
      BlockParts = \<lparr>PartsTotal = 1, PartsHash = partsHash\<rparr>, Signature = sig\<rparr>"

definition mkValidator :: "byte \<Rightarrow> int \<Rightarrow> Validator" where
  "mkValidator a vp = \<lparr>Address = [a], PubKey = [a], VotingPower = vp\<rparr>"

text \<open>The VoteSet that \<^verbatim>\<open>NewVoteSet\<close> builds at height 1.\<close>

definition emptyVoteSet :: "int \<Rightarrow> byte \<Rightarrow> ValidatorSet \<Rightarrow> VoteSet" where
  "emptyVoteSet round type vals =
     \<lparr>vs_height = 1, vs_round = round, vs_type = type, valSet = vals,
      votes = replicate (length vals) None, votesBitArray = replicate (length vals) False,
      votesByBlock = Map.empty, totalVotes = 0,
      maj23Hash = [], maj23Parts = PartSetHeader_zero, maj23Exists = False\<rparr>"

text \<open>Two validators of power 5 and 4; validator 0 prevotes for block AA.\<close>

definition vals54 :: ValidatorSet where
  "vals54 = [mkValidator 1 5, mkValidator 2 4]"

definition voteAA :: Vote where
  "voteAA = mkVote 0 VoteTypePrevote [0xAA] [0xBB] [1, 0xAA]"

definition voteBB :: Vote where
  "voteBB = mkVote 0 VoteTypePrevote [0xBB] [0xCC] [1, 0xBB]"

definition voteAA_otherParts :: Vote where
  "voteAA_otherParts = mkVote 0 VoteTypePrevote [0xAA] [0xDD] [1, 0xAA]"

definition afterAA :: VoteSet where
  "afterAA = (emptyVoteSet 0 VoteTypePrevote vals54)
     \<lparr>votes := [Some voteAA, None], votesBitArray := [True, False],
      votesByBlock := [[0xAA, 0xBB] \<mapsto> 5], totalVotes := 5\<rparr>"

text \<open>Four validators of power 1; validators 0, 1 and 2 precommit for block AA.\<close>

definition vals4 :: ValidatorSet where
  "vals4 = [mkValidator 1 1, mkValidator 2 1, mkValidator 3 1, mkValidator 4 1]"

definition precommitAA :: "byte \<Rightarrow> Vote" where
  "precommitAA a = mkVote 0 VoteTypePrecommit [0xAA] [0xBB] [a, 0xAA]"

definition afterThree :: VoteSet where
  "afterThree = (emptyVoteSet 0 VoteTypePrecommit vals4)
     \<lparr>votes := [Some (precommitAA 1), Some (precommitAA 2), Some (precommitAA 3), None],
      votesBitArray := [True, True, True, False],
      votesByBlock := [[0xAA, 0xBB] \<mapsto> 3], totalVotes := 3,
      maj23Hash := [0xAA], maj23Parts := \<lparr>PartsTotal = 1, PartsHash = [0xBB]\<rparr>,
      maj23Exists := True\<rparr>"

text \<open>One validator of power 1 precommits for the nil block.\<close>

definition vals1 :: ValidatorSet where
  "vals1 = [mkValidator 1 1]"

definition nilPrecommit :: Vote where
  "nilPrecommit = \<lparr>Height = 1, Round = 0, Type = VoteTypePrecommit, BlockHash = [],
                    BlockParts = PartSetHeader_zero, Signature = [1]\<rparr>"

definition afterNil :: VoteSet where
  "afterNil = (emptyVoteSet 0 VoteTypePrecommit vals1)
     \<lparr>votes := [Some nilPrecommit], votesBitArray := [True],
      votesByBlock := [[] \<mapsto> 1], totalVotes := 1,
      maj23Hash := [], maj23Parts := PartSetHeader_zero, maj23Exists := True\<rparr>"

text \<open>One validator of power \<open>2 ^ 62\<close> precommits for block AA.\<close>

definition valsBig :: ValidatorSet where
  "valsBig = [mkValidator 1 4611686018427387904]"

definition afterBig :: VoteSet where
  "afterBig = (emptyVoteSet 0 VoteTypePrecommit valsBig)
     \<lparr>votes := [Some (precommitAA 1)], votesBitArray := [True],
      votesByBlock := [[0xAA, 0xBB] \<mapsto> 4611686018427387904],
      totalVotes := 4611686018427387904\<rparr>"

text \<open>Two validators of power 6 and 3; validator 0 precommits for block AA.\<close>

definition vals63 :: ValidatorSet where
  "vals63 = [mkValidator 1 6, mkValidator 2 3]"

definition afterSix :: VoteSet where
  "afterSix = (emptyVoteSet 0 VoteTypePrecommit vals63)
     \<lparr>votes := [Some (precommitAA 1), None], votesBitArray := [True, False],
      votesByBlock := [[0xAA, 0xBB] \<mapsto> 6], totalVotes := 6\<rparr>"

text \<open>
  Two validators of power 1 and \<open>2 ^ 63 - 2\<close>, so that the total is the largest
  \<^verbatim>\<open>int64\<close>; validator 0 precommits for block AA, then validator 1 for block BB.
\<close>

definition valsMax :: ValidatorSet where
  "valsMax = [mkValidator 1 1, mkValidator 2 9223372036854775806]"

definition precommitBB :: "byte \<Rightarrow> Vote" where
  "precommitBB a = mkVote 0 VoteTypePrecommit [0xBB] [0xCC] [a, 0xBB]"

definition afterMax1 :: VoteSet where
  "afterMax1 = (emptyVoteSet 0 VoteTypePrecommit valsMax)
     \<lparr>votes := [Some (precommitAA 1), None], votesBitArray := [True, False],
      votesByBlock := [[0xAA, 0xBB] \<mapsto> 1], totalVotes := 1,
      maj23Hash := [0xAA], maj23Parts := \<lparr>PartsTotal = 1, PartsHash = [0xBB]\<rparr>,
      maj23Exists := True\<rparr>"

definition afterMax2 :: VoteSet where
  "afterMax2 = (emptyVoteSet 0 VoteTypePrecommit valsMax)
     \<lparr>votes := [Some (precommitAA 1), Some (precommitBB 2)], votesBitArray := [True, True],
      votesByBlock := [[0xAA, 0xBB] \<mapsto> 1, [0xBB, 0xCC] \<mapsto> 9223372036854775806],
      totalVotes := 9223372036854775807,
      maj23Hash := [0xBB], maj23Parts := \<lparr>PartsTotal = 1, PartsHash = [0xCC]\<rparr>,
      maj23Exists := True\<rparr>"

text \<open>The RoundVoteSet that \<^verbatim>\<open>addRound\<close> builds at height 1.\<close>

definition freshRound :: "ValidatorSet \<Rightarrow> int \<Rightarrow> RoundVoteSet" where
  "freshRound vals r = \<lparr>Prevotes = Some (emptyVoteSet r VoteTypePrevote vals),
                        Precommits = Some (emptyVoteSet r VoteTypePrecommit vals)\<rparr>"

text \<open>
  The HeightVoteSet that \<^verbatim>\<open>NewHeightVoteSet(1, vals4)\<close> builds; peer P1 then delivers
  validator 0's precommit for round 7.
\<close>

definition hvsNew :: HeightVoteSet where
  "hvsNew = \<lparr>hvs_height = 1, hvs_valSet = vals4, hvs_round = 0,
             roundVoteSets = [0 \<mapsto> freshRound vals4 0], peerCatchupRounds = Map.empty\<rparr>"

definition precommitRound7 :: Vote where
  "precommitRound7 = mkVote 7 VoteTypePrecommit [0xAA] [0xBB] [1, 0xAA]"

definition hvsAfterP1 :: HeightVoteSet where
  "hvsAfterP1 = \<lparr>hvs_height = 1, hvs_valSet = vals4, hvs_round = 0,
                 roundVoteSets = [0 \<mapsto> freshRound vals4 0, 7 \<mapsto> freshRound vals4 7],
                 peerCatchupRounds = [''P1'' \<mapsto> 7]\<rparr>"

definition hvsAfterSetRound2 :: HeightVoteSet where
  "hvsAfterSetRound2 = \<lparr>hvs_height = 1, hvs_valSet = vals4, hvs_round = 2,
                        roundVoteSets = [0 \<mapsto> freshRound vals4 0, 2 \<mapsto> freshRound vals4 2],
                        peerCatchupRounds = Map.empty\<rparr>"

text \<open>
  A HeightVoteSet over one validator at round 3, where the prevotes of rounds 0 and 2 hold
  the validator's vote and have latched.
\<close>

definition latchedPrevotes :: "int \<Rightarrow> VoteSet" where
  "latchedPrevotes r = (emptyVoteSet r VoteTypePrevote vals1)
     \<lparr>votes := [Some (mkVote r VoteTypePrevote [0xAA] [0xBB] [1, 0xAA])], votesBitArray := [True],
      votesByBlock := [[0xAA, 0xBB] \<mapsto> 1], totalVotes := 1,
      maj23Hash := [0xAA], maj23Parts := \<lparr>PartsTotal = 1, PartsHash = [0xBB]\<rparr>,
      maj23Exists := True\<rparr>"

definition latchedRound :: "int \<Rightarrow> RoundVoteSet" where
  "latchedRound r = \<lparr>Prevotes = Some (latchedPrevotes r),
                     Precommits = Some (emptyVoteSet r VoteTypePrecommit vals1)\<rparr>"

definition hvsPOL :: HeightVoteSet where
  "hvsPOL = \<lparr>hvs_height = 1, hvs_valSet = vals1, hvs_round = 3,
             roundVoteSets = [0 \<mapsto> latchedRound 0, 1 \<mapsto> freshRound vals1 1,
                              2 \<mapsto> latchedRound 2, 3 \<mapsto> freshRound vals1 3],
             peerCatchupRounds = Map.empty\<rparr>"

lemmas demo_defs = demo_env_def mkVote_def mkValidator_def emptyVoteSet_def
  vals54_def voteAA_def voteBB_def voteAA_otherParts_def afterAA_def
  vals4_def precommitAA_def afterThree_def vals1_def nilPrecommit_def afterNil_def
  valsBig_def afterBig_def vals63_def afterSix_def valsMax_def precommitBB_def afterMax1_def
  afterMax2_def freshRound_def hvsNew_def precommitRound7_def hvsAfterP1_def
  hvsAfterSetRound2_def latchedPrevotes_def latchedRound_def hvsPOL_def
  VoteTypePrevote_def VoteTypePrecommit_def PartSetHeader_zero_def

lemmas eval_defs = addVote_def tally_def int64_def quot_def TotalVotingPower_def SetIndex_def
  GetByIndex_def GetByAddress_def addByIndex_def VoteSet_AddByIndex_def VoteSet_AddByAddress_def
  Let_def

lemmas hvs_eval = prevote_maj23_def HeightVoteSet_Prevotes_def HeightVoteSet_Precommits_def
  getVoteSet_def HasTwoThirdsMajority_def

section \<open>Properties\<close>

subsection \<open>The concrete runs\<close>

lemma NewVoteSet_emptyVoteSet: "NewVoteSet 1 round type vals = Inr (emptyVoteSet round type vals)"
  by (simp add: NewVoteSet_def emptyVoteSet_def Size_def NewBitArray_def)

lemma add_voteAA:
  "addVote demo_env (emptyVoteSet 0 VoteTypePrevote vals54) (mkValidator 1 5) 0 voteAA
     = Inr ((True, 0, None), afterAA)"
  by (simp add: demo_defs eval_defs)

lemma AddByIndex_voteAA:
  "VoteSet_AddByIndex demo_env (emptyVoteSet 0 VoteTypePrevote vals54) 0 voteAA
     = Inr ((True, 0, None), afterAA)"
  by (simp add: demo_defs eval_defs)

lemma AddByIndex_nilPrecommit:
  "VoteSet_AddByIndex demo_env (emptyVoteSet 0 VoteTypePrecommit vals1) 0 nilPrecommit
     = Inr ((True, 0, None), afterNil)"
  by (simp add: demo_defs eval_defs)

subsection \<open>The public adds reach addVote\<close>

lemma AddByIndex_addVote:
  "GetByIndex (valSet voteSet) valIndex = Some val \<Longrightarrow>
   VoteSet_AddByIndex env voteSet valIndex vote = addVote env voteSet val valIndex vote"
  by (simp add: VoteSet_AddByIndex_def addByIndex_def)

lemma AddByAddress_addVote:
  "GetByAddress (valSet voteSet) address = Some (valIndex, val) \<Longrightarrow>
   VoteSet_AddByAddress env voteSet address vote = addVote env voteSet val valIndex vote"
  by (simp add: VoteSet_AddByAddress_def)

subsection \<open>Conflicts and duplicates\<close>

text \<open>
  C5. A vote that passes the step and signature checks, from a validator whose slot holds a
  vote with a different block hash, is answered with \<open>ErrVoteConflictingSignature\<close>
  carrying the prior and the new vote, and the VoteSet returned is the VoteSet given: the
  slot, the tallies, the total, the bit array and maj23 are all unchanged.
\<close>

theorem C5_conflicting_signature:
  assumes "Height vote = vs_height voteSet" and "Round vote = vs_round voteSet"
    and "Type vote = vs_type voteSet"
    and "VerifyBytes env (PubKey val) (SignBytes env (chain_id env) vote) (Signature vote)"
    and "0 \<le> valIndex" and "valIndex < int (length (votes voteSet))"
    and "votes voteSet ! nat valIndex = Some prior"
    and "BlockHash prior \<noteq> BlockHash vote"
  shows "addVote env voteSet val valIndex vote =
           Inr ((False, valIndex, Some (ErrVoteConflictingSignature prior vote)), voteSet)"
  using assms by (simp add: addVote_def)

theorem C5_conflicting_signature_witness:
  "votes afterAA ! nat 0 = Some voteAA \<and> BlockHash voteAA \<noteq> BlockHash voteBB \<and>
   addVote demo_env afterAA (mkValidator 1 5) 0 voteBB =
     Inr ((False, 0, Some (ErrVoteConflictingSignature voteAA voteBB)), afterAA)"
proof -
  have slot: "votes afterAA ! nat 0 = Some voteAA" by (simp add: demo_defs)
  have diff: "BlockHash voteAA \<noteq> BlockHash voteBB" by (simp add: demo_defs)
  have "addVote demo_env afterAA (mkValidator 1 5) 0 voteBB =
     Inr ((False, 0, Some (ErrVoteConflictingSignature voteAA voteBB)), afterAA)"
    by (rule C5_conflicting_signature [OF _ _ _ _ _ _ slot diff]) (simp_all add: demo_defs)
  with slot diff show ?thesis by simp
qed

text \<open>
  C6. A vote that passes the step and signature checks, from a validator whose slot is
  empty, is added by the first call (\<open>added = True\<close>, the validator's index, no error); the
  second call with the same vote returns \<open>added = False\<close>, the same index and no error and
  leaves the VoteSet as the first call left it. The tally of the vote's block key and the
  total have grown by the validator's power once.
\<close>

theorem C6_duplicate_idempotent:
  assumes "Height vote = vs_height voteSet" and "Round vote = vs_round voteSet"
    and "Type vote = vs_type voteSet"
    and "VerifyBytes env (PubKey val) (SignBytes env (chain_id env) vote) (Signature vote)"
    and "0 \<le> valIndex" and "valIndex < int (length (votes voteSet))"
    and "votes voteSet ! nat valIndex = None"
  shows "\<exists>voteSet'.
           addVote env voteSet val valIndex vote = Inr ((True, valIndex, None), voteSet') \<and>
           addVote env voteSet' val valIndex vote = Inr ((False, valIndex, None), voteSet') \<and>
           tally (votesByBlock voteSet') (BlockHash vote @ BinaryBytes env (BlockParts vote)) =
             int64 (tally (votesByBlock voteSet) (BlockHash vote @ BinaryBytes env (BlockParts vote))
                    + VotingPower val) \<and>
           totalVotes voteSet' = int64 (totalVotes voteSet + VotingPower val)"
  using assms by (simp add: addVote_def Let_def tally_def)

theorem C6_duplicate_idempotent_witness:
  "votes (emptyVoteSet 0 VoteTypePrevote vals54) ! nat 0 = None \<and>
   addVote demo_env (emptyVoteSet 0 VoteTypePrevote vals54) (mkValidator 1 5) 0 voteAA =
     Inr ((True, 0, None), afterAA) \<and>
   addVote demo_env afterAA (mkValidator 1 5) 0 voteAA = Inr ((False, 0, None), afterAA) \<and>
   tally (votesByBlock afterAA) [0xAA, 0xBB] = 5"
proof -
  have empty: "votes (emptyVoteSet 0 VoteTypePrevote vals54) ! nat 0 = None"
    by (simp add: demo_defs)
  have "\<exists>voteSet'.
      addVote demo_env (emptyVoteSet 0 VoteTypePrevote vals54) (mkValidator 1 5) 0 voteAA =
        Inr ((True, 0, None), voteSet') \<and>
      addVote demo_env voteSet' (mkValidator 1 5) 0 voteAA = Inr ((False, 0, None), voteSet') \<and>
      tally (votesByBlock voteSet') (BlockHash voteAA @ BinaryBytes demo_env (BlockParts voteAA)) =
        int64 (tally (votesByBlock (emptyVoteSet 0 VoteTypePrevote vals54))
                 (BlockHash voteAA @ BinaryBytes demo_env (BlockParts voteAA))
               + VotingPower (mkValidator 1 5)) \<and>
      totalVotes voteSet' =
        int64 (totalVotes (emptyVoteSet 0 VoteTypePrevote vals54) + VotingPower (mkValidator 1 5))"
    by (rule C6_duplicate_idempotent [OF _ _ _ _ _ _ empty]) (simp_all add: demo_defs)
  then obtain voteSet' where
    first: "addVote demo_env (emptyVoteSet 0 VoteTypePrevote vals54) (mkValidator 1 5) 0 voteAA =
        Inr ((True, 0, None), voteSet')" and
    second: "addVote demo_env voteSet' (mkValidator 1 5) 0 voteAA = Inr ((False, 0, None), voteSet')"
    by blast
  from first have "voteSet' = afterAA" by (simp add: add_voteAA)
  with first second have
    "addVote demo_env (emptyVoteSet 0 VoteTypePrevote vals54) (mkValidator 1 5) 0 voteAA =
       Inr ((True, 0, None), afterAA)"
    "addVote demo_env afterAA (mkValidator 1 5) 0 voteAA = Inr ((False, 0, None), afterAA)"
    by simp_all
  moreover have "tally (votesByBlock afterAA) [0xAA, 0xBB] = 5"
    by (simp add: demo_defs tally_def)
  ultimately show ?thesis using empty by simp
qed

text \<open>
  C9. A vote that passes the step and signature checks, from a validator whose slot holds a
  vote with the same block hash and a different parts header, is answered as a duplicate:
  \<open>added = False\<close>, the validator's index, no error. The VoteSet returned is the VoteSet
  given, so the second vote is not stored and no tally changes.
\<close>

theorem C9_same_hash_other_parts:
  assumes "Height vote = vs_height voteSet" and "Round vote = vs_round voteSet"
    and "Type vote = vs_type voteSet"
    and "VerifyBytes env (PubKey val) (SignBytes env (chain_id env) vote) (Signature vote)"
    and "0 \<le> valIndex" and "valIndex < int (length (votes voteSet))"
    and "votes voteSet ! nat valIndex = Some prior"
    and "BlockHash prior = BlockHash vote"
    and "\<not> PartSetHeader_Equals (BlockParts prior) (BlockParts vote)"
  shows "addVote env voteSet val valIndex vote = Inr ((False, valIndex, None), voteSet) \<and>
         votes voteSet ! nat valIndex \<noteq> Some vote"
  using assms by (auto simp add: addVote_def PartSetHeader_Equals_def)

theorem C9_same_hash_other_parts_witness:
  "votes afterAA ! nat 0 = Some voteAA \<and> BlockHash voteAA = BlockHash voteAA_otherParts \<and>
   \<not> PartSetHeader_Equals (BlockParts voteAA) (BlockParts voteAA_otherParts) \<and>
   addVote demo_env afterAA (mkValidator 1 5) 0 voteAA_otherParts =
     Inr ((False, 0, None), afterAA) \<and>
   votes afterAA ! nat 0 \<noteq> Some voteAA_otherParts"
proof -
  have slot: "votes afterAA ! nat 0 = Some voteAA" by (simp add: demo_defs)
  have same: "BlockHash voteAA = BlockHash voteAA_otherParts" by (simp add: demo_defs)
  have other: "\<not> PartSetHeader_Equals (BlockParts voteAA) (BlockParts voteAA_otherParts)"
    by (simp add: demo_defs PartSetHeader_Equals_def)
  have "addVote demo_env afterAA (mkValidator 1 5) 0 voteAA_otherParts =
          Inr ((False, 0, None), afterAA) \<and>
        votes afterAA ! nat 0 \<noteq> Some voteAA_otherParts"
    by (rule C9_same_hash_other_parts [OF _ _ _ _ _ _ slot same other]) (simp_all add: demo_defs)
  with slot same other show ?thesis by simp
qed

subsection \<open>MakeValidation\<close>

text \<open>
  One call of the callback at index \<open>i\<close>, on a result slice whose slot \<open>i\<close> is still
  empty, writes into slot \<open>i\<close> what \<open>keep_maj23\<close> keeps of the stored vote.
\<close>

lemma MakeValidation_fn_step:
  assumes "i < length (votes voteSet)" and "length precommits = length (votes voteSet)"
    and "precommits ! i = None"
  shows "MakeValidation_fn voteSet (int i) val precommits =
           Inr (False, precommits[i := keep_maj23 voteSet (votes voteSet ! i)])"
proof (cases "votes voteSet ! i")
  case None
  with assms have "precommits[i := keep_maj23 voteSet (votes voteSet ! i)] = precommits"
    by (simp add: keep_maj23_def list_update_same_conv)
  with None assms show ?thesis by (simp add: MakeValidation_fn_def)
next
  case (Some vote)
  show ?thesis
  proof (cases "BlockHash vote = maj23Hash voteSet \<and>
                PartSetHeader_Equals (BlockParts vote) (maj23Parts voteSet)")
    case True
    with Some assms show ?thesis by (simp add: MakeValidation_fn_def keep_maj23_def)
  next
    case False
    with Some assms have "precommits[i := keep_maj23 voteSet (votes voteSet ! i)] = precommits"
      by (simp add: keep_maj23_def list_update_same_conv)
    with False Some assms show ?thesis by (auto simp add: MakeValidation_fn_def)
  qed
qed

lemma prefix_update:
  assumes "i < length xs"
  shows "(map f (take i xs) @ replicate (length xs - i) None)[i := f (xs ! i)] =
           map f (take (Suc i) xs) @ replicate (length xs - Suc i) None"
proof -
  have "replicate (length xs - i) None = None # replicate (length xs - Suc i) (None :: 'b option)"
    using assms by (simp add: Suc_diff_Suc flip: replicate_Suc)
  then show ?thesis using assms
    by (simp add: take_Suc_conv_app_nth list_update_append)
qed

text \<open>
  The iteration from index \<open>i\<close>, started on a result slice that holds the kept votes below
  \<open>i\<close> and is empty from \<open>i\<close> on, ends with the kept vote in every slot.
\<close>

lemma Iterate_from_MakeValidation:
  assumes "i + length vals = length (votes voteSet)"
    and "precommits = map (keep_maj23 voteSet) (take i (votes voteSet)) @
                      replicate (length (votes voteSet) - i) None"
  shows "Iterate_from i vals (MakeValidation_fn voteSet) precommits =
           Inr (map (keep_maj23 voteSet) (votes voteSet))"
  using assms
proof (induction vals arbitrary: i precommits)
  case Nil
  then show ?case by simp
next
  case (Cons v vals)
  have i: "i < length (votes voteSet)" using Cons.prems(1) by simp
  have len: "length precommits = length (votes voteSet)" using Cons.prems i by simp
  have none: "precommits ! i = None" using Cons.prems i by (simp add: nth_append)
  have step: "MakeValidation_fn voteSet (int i) v precommits =
      Inr (False, precommits[i := keep_maj23 voteSet (votes voteSet ! i)])"
    by (rule MakeValidation_fn_step [OF i len none])
  have next_pre: "precommits[i := keep_maj23 voteSet (votes voteSet ! i)] =
      map (keep_maj23 voteSet) (take (Suc i) (votes voteSet)) @
      replicate (length (votes voteSet) - Suc i) None"
    unfolding Cons.prems(2) by (rule prefix_update [OF i])
  have rest: "Suc i + length vals = length (votes voteSet)" using Cons.prems(1) by simp
  have "Iterate_from (Suc i) vals (MakeValidation_fn voteSet)
          (precommits[i := keep_maj23 voteSet (votes voteSet ! i)]) =
        Inr (map (keep_maj23 voteSet) (votes voteSet))"
    by (rule Cons.IH [OF rest next_pre])
  with step show ?case by simp
qed

text \<open>
  C3, as the code has it. The claim is that MakeValidation aborts exactly when the kind is
  not Precommit or maj23 has not been latched, and returns a Validation when maj23 is the
  nil block identifier. The guard of the code is \<^verbatim>\<open>len(voteSet.maj23Hash) == 0\<close>: a
  precommit VoteSet that has latched on the nil block aborts too.
\<close>

theorem C3_nil_maj23_counterexample:
  "VoteSet_AddByIndex demo_env (emptyVoteSet 0 VoteTypePrecommit vals1) 0 nilPrecommit =
     Inr ((True, 0, None), afterNil) \<and>
   vs_type afterNil = VoteTypePrecommit \<and>
   TwoThirdsMajority (Some afterNil) = Inr ([], PartSetHeader_zero, True) \<and>
   MakeValidation afterNil = Inl PanicMakeValidationNoMaj23"
  by (simp add: AddByIndex_nilPrecommit)
     (simp add: demo_defs MakeValidation_def TwoThirdsMajority_def)

text \<open>
  C3 (amended). On a VoteSet with one slot per validator, MakeValidation aborts exactly when
  the kind is not Precommit or the maj23 block hash is empty; otherwise it returns a
  Validation whose slot \<open>i\<close> holds the stored vote when that vote matches maj23 in both
  block hash and parts header, and is empty otherwise.
\<close>

theorem C3_MakeValidation:
  assumes "length (votes voteSet) = length (valSet voteSet)"
  shows "MakeValidation voteSet =
           (if vs_type voteSet \<noteq> VoteTypePrecommit then Inl PanicMakeValidationType
            else if maj23Hash voteSet = [] then Inl PanicMakeValidationNoMaj23
            else Inr \<lparr>val_Precommits = map (keep_maj23 voteSet) (votes voteSet)\<rparr>)"
proof -
  have "Iterate (valSet voteSet) (MakeValidation_fn voteSet)
          (replicate (nat (Size (valSet voteSet))) None) =
        Inr (map (keep_maj23 voteSet) (votes voteSet))"
    unfolding Iterate_def
    by (rule Iterate_from_MakeValidation) (simp_all add: assms Size_def)
  then show ?thesis by (simp add: MakeValidation_def)
qed

theorem C3_MakeValidation_witness:
  "length (votes afterThree) = length (valSet afterThree) \<and>
   MakeValidation afterThree =
     Inr \<lparr>val_Precommits = [Some (precommitAA 1), Some (precommitAA 2), Some (precommitAA 3), None]\<rparr>"
proof -
  have len: "length (votes afterThree) = length (valSet afterThree)"
    by (simp add: demo_defs)
  have "map (keep_maj23 afterThree) (votes afterThree) =
      [Some (precommitAA 1), Some (precommitAA 2), Some (precommitAA 3), None]"
    by (simp add: demo_defs keep_maj23_def PartSetHeader_Equals_def)
  moreover have "vs_type afterThree = VoteTypePrecommit" "maj23Hash afterThree \<noteq> []"
    by (simp_all add: demo_defs)
  ultimately show ?thesis using C3_MakeValidation [OF len] len by simp
qed

text \<open>
  Every VoteSet that \<^verbatim>\<open>NewVoteSet\<close> builds and \<^verbatim>\<open>addVote\<close> changes has one slot per
  validator, and an empty maj23 block hash as long as maj23 is not latched.
\<close>

lemma NewVoteSet_shape:
  assumes "NewVoteSet height round type vals = Inr voteSet"
  shows "length (votes voteSet) = length (valSet voteSet) \<and> maj23Hash voteSet = [] \<and> \<not> maj23Exists voteSet"
  using assms by (auto simp add: NewVoteSet_def Size_def split: if_splits)

lemma addVote_shape:
  assumes "addVote env voteSet val valIndex vote = Inr (res, voteSet')"
  shows "length (votes voteSet') = length (votes voteSet) \<and> valSet voteSet' = valSet voteSet \<and>
         vs_height voteSet' = vs_height voteSet \<and> vs_round voteSet' = vs_round voteSet \<and>
         vs_type voteSet' = vs_type voteSet"
  using assms
  by (auto simp add: addVote_def Let_def split: if_splits option.splits)

lemma addVote_unlatched_empty:
  assumes "addVote env voteSet val valIndex vote = Inr (res, voteSet')"
    and "maj23Exists voteSet \<or> maj23Hash voteSet = []"
  shows "maj23Exists voteSet' \<or> maj23Hash voteSet' = []"
  using assms
  by (auto simp add: addVote_def Let_def split: if_splits option.splits)

subsection \<open>POLRound and the nil VoteSet\<close>

lemma getVoteSet_Prevote:
  "getVoteSet hvs r VoteTypePrevote =
     Inr (case roundVoteSets hvs r of None \<Rightarrow> None | Some rvs \<Rightarrow> Prevotes rvs)"
  by (simp add: getVoteSet_def split: option.splits)

text \<open>
  The scan from \<open>r\<close> down to 0 returns, without a panic, the highest round of \<open>[0, r]\<close> with
  a prevote majority, and \<open>- 1\<close> when there is none.
\<close>

lemma POLRound_loop_scan:
  "\<exists>p. POLRound_loop hvs r = Inr p \<and>
       (if p = - 1 then \<forall>r'. 0 \<le> r' \<and> r' \<le> r \<longrightarrow> \<not> prevote_maj23 hvs r'
        else 0 \<le> p \<and> p \<le> r \<and> prevote_maj23 hvs p \<and>
             (\<forall>r'. p < r' \<and> r' \<le> r \<longrightarrow> \<not> prevote_maj23 hvs r'))"
proof (induction hvs r rule: POLRound_loop.induct)
  case (1 hvs r)
  show ?case
  proof (cases "0 \<le> r")
    case False
    then have "POLRound_loop hvs r = Inr (- 1)" by (simp add: POLRound_loop.simps)
    moreover from False have "\<forall>r'. 0 \<le> r' \<and> r' \<le> r \<longrightarrow> \<not> prevote_maj23 hvs r'"
      by auto
    ultimately show ?thesis by simp
  next
    case True
    show ?thesis
    proof (cases "prevote_maj23 hvs r")
      case True
      then have "POLRound_loop hvs r = Inr r"
        using \<open>0 \<le> r\<close>
        by (simp add: POLRound_loop.simps [of hvs r] prevote_maj23_def
                      HeightVoteSet_Prevotes_def getVoteSet_Prevote)
      moreover have "\<forall>r'. r < r' \<and> r' \<le> r \<longrightarrow> \<not> prevote_maj23 hvs r'"
        by auto
      ultimately show ?thesis using True \<open>0 \<le> r\<close> by simp
    next
      case False
      then have no: "\<not> HasTwoThirdsMajority (case roundVoteSets hvs r of None \<Rightarrow> None | Some rvs \<Rightarrow> Prevotes rvs)"
        by (simp add: prevote_maj23_def HeightVoteSet_Prevotes_def getVoteSet_Prevote)
      have unfold: "POLRound_loop hvs r = POLRound_loop hvs (r - 1)"
        using \<open>0 \<le> r\<close> no by (simp add: POLRound_loop.simps [of hvs r] getVoteSet_Prevote)
      from "1.IH" [OF \<open>0 \<le> r\<close> getVoteSet_Prevote no]
      obtain p where p: "POLRound_loop hvs (r - 1) = Inr p"
        and rest: "if p = - 1 then \<forall>r'. 0 \<le> r' \<and> r' \<le> r - 1 \<longrightarrow> \<not> prevote_maj23 hvs r'
          else 0 \<le> p \<and> p \<le> r - 1 \<and> prevote_maj23 hvs p \<and>
               (\<forall>r'. p < r' \<and> r' \<le> r - 1 \<longrightarrow> \<not> prevote_maj23 hvs r')"
        by blast
      have step: "\<And>r'. r' \<le> r \<Longrightarrow> r' \<le> r - 1 \<or> r' = r" by arith
      show ?thesis
      proof (cases "p = - 1")
        case True
        with rest False step have "\<forall>r'. 0 \<le> r' \<and> r' \<le> r \<longrightarrow> \<not> prevote_maj23 hvs r'"
          by auto
        with True p unfold show ?thesis by simp
      next
        case False
        with rest \<open>\<not> prevote_maj23 hvs r\<close> step
        have "0 \<le> p \<and> p \<le> r \<and> prevote_maj23 hvs p \<and>
              (\<forall>r'. p < r' \<and> r' \<le> r \<longrightarrow> \<not> prevote_maj23 hvs r')"
          by auto
        with False p unfold show ?thesis by simp
      qed
    qed
  qed
qed

text \<open>
  C8. POLRound returns without a panic. Its result \<open>p\<close> is \<open>- 1\<close> exactly when no round of
  \<open>[0, round]\<close> has a +2/3 prevote majority; otherwise \<open>p\<close> is a round of \<open>[0, round]\<close> that
  has one and no round above \<open>p\<close> up to \<open>round\<close> has one: the first one met scanning down from
  the current round.
\<close>

theorem C8_POLRound:
  "\<exists>p. POLRound hvs = Inr p \<and>
       (if p = - 1 then \<forall>r. 0 \<le> r \<and> r \<le> hvs_round hvs \<longrightarrow> \<not> prevote_maj23 hvs r
        else 0 \<le> p \<and> p \<le> hvs_round hvs \<and> prevote_maj23 hvs p \<and>
             (\<forall>r. p < r \<and> r \<le> hvs_round hvs \<longrightarrow> \<not> prevote_maj23 hvs r))"
  unfolding POLRound_def by (rule POLRound_loop_scan)

theorem C8_POLRound_witness:
  "POLRound hvsPOL = Inr 2 \<and> hvs_round hvsPOL = 3 \<and>
   prevote_maj23 hvsPOL 0 \<and> \<not> prevote_maj23 hvsPOL 1 \<and>
   prevote_maj23 hvsPOL 2 \<and> \<not> prevote_maj23 hvsPOL 3"
proof -
  have round: "hvs_round hvsPOL = 3" by (simp add: demo_defs)
  have m0: "prevote_maj23 hvsPOL 0" by (simp add: demo_defs hvs_eval)
  have m1: "\<not> prevote_maj23 hvsPOL 1" by (simp add: demo_defs hvs_eval)
  have m2: "prevote_maj23 hvsPOL 2" by (simp add: demo_defs hvs_eval)
  have m3: "\<not> prevote_maj23 hvsPOL 3" by (simp add: demo_defs hvs_eval)
  from C8_POLRound [of hvsPOL] obtain p where
    p: "POLRound hvsPOL = Inr p" and
    scan: "if p = - 1 then \<forall>r. 0 \<le> r \<and> r \<le> hvs_round hvsPOL \<longrightarrow> \<not> prevote_maj23 hvsPOL r
           else 0 \<le> p \<and> p \<le> hvs_round hvsPOL \<and> prevote_maj23 hvsPOL p \<and>
                (\<forall>r. p < r \<and> r \<le> hvs_round hvsPOL \<longrightarrow> \<not> prevote_maj23 hvsPOL r)"
    by blast
  have "p \<noteq> - 1"
  proof
    assume "p = - 1"
    with scan round have "\<not> prevote_maj23 hvsPOL 0" by simp
    with m0 show False by simp
  qed
  with scan round have range: "0 \<le> p" "p \<le> 3" and found: "prevote_maj23 hvsPOL p"
    and above: "\<forall>r. p < r \<and> r \<le> 3 \<longrightarrow> \<not> prevote_maj23 hvsPOL r"
    by simp_all
  from range have "p = 0 \<or> p = 1 \<or> p = 2 \<or> p = 3" by arith
  with found m1 m3 have "p = 0 \<or> p = 2" by auto
  moreover have "p \<noteq> 0" using above m2 by auto
  ultimately have "p = 2" by simp
  with p round m0 m1 m2 m3 show ?thesis by simp
qed

text \<open>
  C10, as the code has it. The claim is that every read accessor returns a default on a nil
  VoteSet. \<^verbatim>\<open>TwoThirdsMajority\<close>, \<^verbatim>\<open>GetByIndex\<close> and \<^verbatim>\<open>GetByAddress\<close> have no
  nil test: they lock the mutex of the nil VoteSet.
\<close>

theorem C10_unguarded_accessors_counterexample:
  "TwoThirdsMajority None = Inl PanicNilDereference \<and>
   VoteSet_GetByIndex None 0 = Inl PanicNilDereference \<and>
   VoteSet_GetByAddress None [1] = Inl PanicNilDereference"
  by (simp add: TwoThirdsMajority_def VoteSet_GetByIndex_def VoteSet_GetByAddress_def)

text \<open>
  C10 (amended). On a nil VoteSet, Height, Round and Size return 0, BitArray returns nil,
  and HasTwoThirdsMajority and HasTwoThirdsAny return false; POLRound returns without a
  panic for every HeightVoteSet, whichever rounds have an entry.
\<close>

theorem C10_nil_guarded_accessors:
  "VoteSet_Height None = 0 \<and> VoteSet_Round None = 0 \<and> VoteSet_Size None = 0 \<and>
   VoteSet_BitArray None = None \<and>
   HasTwoThirdsMajority None = False \<and> HasTwoThirdsAny None = False \<and>
   (\<exists>p. POLRound hvs = Inr p)"
proof -
  have "\<exists>p. POLRound hvs = Inr p"
    unfolding POLRound_def using POLRound_loop_scan [of hvs "hvs_round hvs"] by blast
  then show ?thesis
    by (simp add: VoteSet_Height_def VoteSet_Round_def VoteSet_Size_def VoteSet_BitArray_def
                  HasTwoThirdsMajority_def HasTwoThirdsAny_def)
qed

text \<open>POLRound on a HeightVoteSet at round 2 whose round 1 has no entry.\<close>

lemma POLRound_missing_round:
  "roundVoteSets hvsAfterSetRound2 1 = None \<and> POLRound hvsAfterSetRound2 = Inr (- 1)"
  by (simp add: demo_defs POLRound_def POLRound_loop.simps getVoteSet_def HasTwoThirdsMajority_def)

subsection \<open>Catch-up rounds and SetRound\<close>

lemma NewHeightVoteSet_hvsNew: "NewHeightVoteSet 1 vals4 = Inr hvsNew"
  by (simp add: NewHeightVoteSet_def addRound_def NewVoteSet_emptyVoteSet hvsNew_def freshRound_def)

lemma addRound_fresh:
  "roundVoteSets hvs r = None \<Longrightarrow> hvs_height hvs = 1 \<Longrightarrow>
   addRound hvs r = Inr (hvs\<lparr>roundVoteSets := (roundVoteSets hvs)(r \<mapsto> freshRound (hvs_valSet hvs) r)\<rparr>)"
  by (simp add: addRound_def NewVoteSet_emptyVoteSet freshRound_def)

text \<open>
  C1, at a concrete input. A new HeightVoteSet over four validators is at round 0; peer P1,
  which has no catch-up round yet, delivers validator 0's precommit for round 7. The code
  allocates round 7 and records the peer's catch-up round, and then returns
  \<open>added = False\<close>: the \<^verbatim>\<open>return\<close> that closes the \<^verbatim>\<open>voteSet == nil\<close> branch
  comes before the delegation. The precommits of round 7 do not hold the vote, although
  adding the same vote to that VoteSet returns \<open>added = True\<close>.
\<close>

theorem C1_first_catchup_vote_dropped:
  "NewHeightVoteSet 1 vals4 = Inr hvsNew \<and>
   HeightVoteSet_Precommits hvsNew 7 = Inr None \<and> peerCatchupRounds hvsNew ''P1'' = None \<and>
   HeightVoteSet_AddByAddress demo_env hvsNew [1] precommitRound7 ''P1'' =
     Inr ((False, 0, None), hvsAfterP1) \<and>
   HeightVoteSet_Precommits hvsAfterP1 7 = Inr (Some (emptyVoteSet 7 VoteTypePrecommit vals4)) \<and>
   VoteSet_GetByIndex (Some (emptyVoteSet 7 VoteTypePrecommit vals4)) 0 = Inr None \<and>
   map_sum id fst (VoteSet_AddByAddress demo_env (emptyVoteSet 7 VoteTypePrecommit vals4) [1] precommitRound7)
     = Inr (True, 0, None)"
proof -
  have a: "HeightVoteSet_Precommits hvsNew 7 = Inr None" "peerCatchupRounds hvsNew ''P1'' = None"
    by (simp_all add: hvsNew_def HeightVoteSet_Precommits_def getVoteSet_def)
  have b: "HeightVoteSet_AddByAddress demo_env hvsNew [1] precommitRound7 ''P1'' =
     Inr ((False, 0, None), hvsAfterP1)"
    by (simp add: HeightVoteSet_AddByAddress_def getVoteSet_def hvsNew_def precommitRound7_def
        mkVote_def addRound_fresh hvsAfterP1_def)
  have c: "HeightVoteSet_Precommits hvsAfterP1 7 = Inr (Some (emptyVoteSet 7 VoteTypePrecommit vals4))"
    by (simp add: hvsAfterP1_def HeightVoteSet_Precommits_def getVoteSet_def freshRound_def
         VoteTypePrecommit_def VoteTypePrevote_def)
  have d: "VoteSet_GetByIndex (Some (emptyVoteSet 7 VoteTypePrecommit vals4)) 0 = Inr None"
    by (simp add: VoteSet_GetByIndex_def emptyVoteSet_def vals4_def)
  have e: "map_sum id fst (VoteSet_AddByAddress demo_env (emptyVoteSet 7 VoteTypePrecommit vals4) [1] precommitRound7)
     = Inr (True, 0, None)"
    by (simp add: demo_defs eval_defs)
  from a b c d e NewHeightVoteSet_hvsNew show ?thesis by simp
qed

text \<open>
  The same for every input: whenever \<^verbatim>\<open>getVoteSet\<close> finds no VoteSet, the call
  returns \<open>added = False\<close>, index 0 and no error.
\<close>

lemma catchup_branch_never_adds:
  assumes "getVoteSet hvs (Round vote) (Type vote) = Inr None"
    and "HeightVoteSet_AddByAddress env hvs address vote peerKey = Inr (res, hvs')"
  shows "res = (False, 0, None)"
  using assms
  by (auto simp add: HeightVoteSet_AddByAddress_def split: option.splits sum.splits)

text \<open>
  C2, at a concrete input. From the new HeightVoteSet at round 0, \<^verbatim>\<open>SetRound(2)\<close>
  leaves round 1 without an entry: the loop body calls \<^verbatim>\<open>addRound(round)\<close>, so its
  first pass creates round 2 and its second pass finds round 2 present.
  \<^verbatim>\<open>SetRound(3)\<close> panics in its second pass, which calls \<^verbatim>\<open>addRound(3)\<close> again.
\<close>

theorem C2_SetRound_skips_rounds:
  "NewHeightVoteSet 1 vals4 = Inr hvsNew \<and>
   SetRound hvsNew 2 = Inr hvsAfterSetRound2 \<and>
   hvs_round hvsAfterSetRound2 = 2 \<and> roundVoteSets hvsAfterSetRound2 1 = None \<and>
   SetRound hvsNew 3 = Inl PanicAddRoundExisting"
proof -
  have a: "SetRound hvsNew 2 = Inr hvsAfterSetRound2"
    by (simp add: SetRound_def SetRound_loop.simps hvsNew_def addRound_fresh hvsAfterSetRound2_def)
  have b: "hvs_round hvsAfterSetRound2 = 2" "roundVoteSets hvsAfterSetRound2 1 = None"
    by (simp_all add: hvsAfterSetRound2_def)
  have c: "SetRound hvsNew 3 = Inl PanicAddRoundExisting"
    by (simp add: SetRound_def SetRound_loop.simps hvsNew_def addRound_fresh)
       (simp add: addRound_def)
  from a b c NewHeightVoteSet_hvsNew show ?thesis by simp
qed

text \<open>
  The same for every HeightVoteSet: advancing by one round creates that round; advancing by
  two over absent rounds leaves the round in between without an entry; advancing by three
  over absent rounds panics.
\<close>

lemma SetRound_next:
  assumes "hvs_height hvs \<noteq> 0"
    and "roundVoteSets hvs (hvs_round hvs + 1) = None"
  shows "\<exists>hvs'. SetRound hvs (hvs_round hvs + 1) = Inr hvs' \<and>
               hvs_round hvs' = hvs_round hvs + 1 \<and>
               roundVoteSets hvs' (hvs_round hvs + 1) \<noteq> None"
  using assms
  by (simp add: SetRound_def SetRound_loop.simps addRound_def NewVoteSet_def)

lemma SetRound_two_ahead:
  assumes "hvs_height hvs \<noteq> 0"
    and "roundVoteSets hvs (hvs_round hvs + 1) = None"
    and "roundVoteSets hvs (hvs_round hvs + 2) = None"
  shows "\<exists>hvs'. SetRound hvs (hvs_round hvs + 2) = Inr hvs' \<and>
               hvs_round hvs' = hvs_round hvs + 2 \<and>
               roundVoteSets hvs' (hvs_round hvs + 1) = None"
  using assms
  by (simp add: SetRound_def SetRound_loop.simps addRound_def NewVoteSet_def)

lemma SetRound_three_ahead:
  assumes "hvs_height hvs \<noteq> 0"
    and "roundVoteSets hvs (hvs_round hvs + 1) = None"
    and "roundVoteSets hvs (hvs_round hvs + 2) = None"
    and "roundVoteSets hvs (hvs_round hvs + 3) = None"
  shows "SetRound hvs (hvs_round hvs + 3) = Inl PanicAddRoundExisting"
proof -
  have "roundVoteSets hvs (2 + hvs_round hvs) = None"
    using assms(3) by (simp add: add.commute)
  with assms show ?thesis
    by (simp add: SetRound_def SetRound_loop.simps addRound_def NewVoteSet_def)
qed

subsection \<open>The two-thirds latch\<close>

text \<open>Total power 9, a tally of 6: \<open>6 > 6\<close> is false and maj23 is not latched.\<close>

lemma exact_two_thirds:
  "TotalVotingPower vals63 = 9 \<and>
   VoteSet_AddByIndex demo_env (emptyVoteSet 0 VoteTypePrecommit vals63) 0 (precommitAA 1) =
     Inr ((True, 0, None), afterSix) \<and>
   tally (votesByBlock afterSix) [0xAA, 0xBB] = 6 \<and>
   HasTwoThirdsMajority (Some afterSix) = False"
  by (simp add: demo_defs eval_defs HasTwoThirdsMajority_def)

text \<open>
  C7, at a concrete input. A validator set of one validator of power \<open>2 ^ 62\<close>: the
  product \<^verbatim>\<open>TotalVotingPower()*2\<close> wraps to \<open>- 2 ^ 63\<close>, the threshold is negative,
  the test \<^verbatim>\<open>totalBlockHashVotes - val.VotingPower <= threshold\<close> fails, and the single
  vote does not latch maj23.
\<close>

theorem C7_single_validator_overflow:
  "NewVoteSet 1 0 VoteTypePrecommit valsBig = Inr (emptyVoteSet 0 VoteTypePrecommit valsBig) \<and>
   TotalVotingPower valsBig = 2 ^ 62 \<and>
   VoteSet_AddByIndex demo_env (emptyVoteSet 0 VoteTypePrecommit valsBig) 0 (precommitAA 1) =
     Inr ((True, 0, None), afterBig) \<and>
   HasTwoThirdsMajority (Some afterBig) = False"
  by (simp add: NewVoteSet_emptyVoteSet) (simp add: demo_defs eval_defs HasTwoThirdsMajority_def)

text \<open>
  Below \<open>2 ^ 62\<close> nothing wraps, and the single vote of a one-validator set latches maj23.
\<close>

lemma int64_id: "- (2 ^ 63) \<le> x \<Longrightarrow> x < 2 ^ 63 \<Longrightarrow> int64 x = x"
  by (simp add: int64_def)

lemma quot_nonneg: "0 \<le> a \<Longrightarrow> quot a 3 = a div 3"
  by (simp add: quot_def)

lemma single_validator_latches:
  assumes P: "0 < VotingPower val" "VotingPower val < 2 ^ 62"
    and new: "NewVoteSet height round type [val] = Inr voteSet"
    and step: "Height vote = height" "Round vote = round" "Type vote = type"
    and sig: "VerifyBytes env (PubKey val) (SignBytes env (chain_id env) vote) (Signature vote)"
  shows "\<exists>voteSet'. VoteSet_AddByIndex env voteSet 0 vote = Inr ((True, 0, None), voteSet') \<and>
           TwoThirdsMajority (Some voteSet') = Inr (BlockHash vote, BlockParts vote, True)"
proof -
  from new have vs: "voteSet = \<lparr>vs_height = height, vs_round = round, vs_type = type, valSet = [val],
                votes = [None], votesBitArray = [False], votesByBlock = Map.empty, totalVotes = 0,
                maj23Hash = [], maj23Parts = PartSetHeader_zero, maj23Exists = False\<rparr>"
    by (auto simp add: NewVoteSet_def Size_def NewBitArray_def split: if_splits)
  have t: "TotalVotingPower [val] = VotingPower val"
    using P by (simp add: TotalVotingPower_def int64_id)
  have two: "int64 (VotingPower val * 2) = VotingPower val * 2"
    using P by (simp add: int64_id)
  have thr: "quot (VotingPower val * 2) 3 = VotingPower val * 2 div 3"
    using P by (simp add: quot_nonneg)
  have p: "int64 (VotingPower val) = VotingPower val"
    using P by (simp add: int64_id)
  have lt: "VotingPower val * 2 div 3 < VotingPower val" "0 \<le> VotingPower val * 2 div 3"
    using P by simp_all
  show ?thesis
    using step sig lt
    by (simp add: vs VoteSet_AddByIndex_def addByIndex_def GetByIndex_def addVote_def Let_def
          tally_def t two thr p int64_id SetIndex_def TwoThirdsMajority_def)
qed

text \<open>
  C4, at a concrete input. Two validators of power 1 and \<open>2 ^ 63 - 2\<close>: the product
  \<^verbatim>\<open>TotalVotingPower()*2\<close> wraps to \<open>- 2\<close> and the threshold is 0. The first precommit
  latches block AA; the second, for block BB, crosses the threshold for its own key and the
  code, which does not test \<^verbatim>\<open>maj23Exists\<close>, overwrites the latch with block BB.
\<close>

theorem C4_latch_overwritten:
  "NewVoteSet 1 0 VoteTypePrecommit valsMax = Inr (emptyVoteSet 0 VoteTypePrecommit valsMax) \<and>
   TotalVotingPower valsMax = 2 ^ 63 - 1 \<and>
   VoteSet_AddByIndex demo_env (emptyVoteSet 0 VoteTypePrecommit valsMax) 0 (precommitAA 1) =
     Inr ((True, 0, None), afterMax1) \<and>
   TwoThirdsMajority (Some afterMax1) = Inr ([0xAA], \<lparr>PartsTotal = 1, PartsHash = [0xBB]\<rparr>, True) \<and>
   VoteSet_AddByIndex demo_env afterMax1 1 (precommitBB 2) = Inr ((True, 1, None), afterMax2) \<and>
   TwoThirdsMajority (Some afterMax2) = Inr ([0xBB], \<lparr>PartsTotal = 1, PartsHash = [0xCC]\<rparr>, True)"
  by (simp add: NewVoteSet_emptyVoteSet) (simp add: demo_defs eval_defs TwoThirdsMajority_def)

text \<open>The flag itself is never cleared, whatever the arithmetic does.\<close>

lemma addVote_latch_stays:
  assumes "addVote env voteSet val valIndex vote = Inr (res, voteSet')"
    and "maj23Exists voteSet"
  shows "maj23Exists voteSet'"
  using assms
  by (auto simp add: addVote_def Let_def split: if_splits option.splits)

subsection \<open>The latch without overflow\<close>

text \<open>
  On a validator set without overflow the total is the plain sum of the powers, the tally of
  a key counts each voted slot once, and two keys cannot both be above two thirds of the
  total. So \<^verbatim>\<open>addVote\<close> never assigns maj23 a second time there, and
  \<^verbatim>\<open>TwoThirdsMajority\<close> returns the same answer after any sequence of adds.
\<close>

lemma powers_sum_nonneg:
  "list_all (\<lambda>v. 0 \<le> VotingPower v) vals \<Longrightarrow> 0 \<le> sum_list (map VotingPower vals)"
  by (induction vals) auto

lemma foldl_int64_sum:
  assumes "list_all (\<lambda>v. 0 \<le> VotingPower v) vals" and "0 \<le> a"
    and "a + sum_list (map VotingPower vals) < 2 ^ 63"
  shows "foldl (\<lambda>acc v. int64 (acc + VotingPower v)) a vals = a + sum_list (map VotingPower vals)"
  using assms
proof (induction vals arbitrary: a)
  case Nil
  then show ?case by simp
next
  case (Cons v vals)
  have rest: "0 \<le> sum_list (map VotingPower vals)"
    using Cons.prems(1) by (simp add: powers_sum_nonneg)
  have v: "0 \<le> VotingPower v" using Cons.prems(1) by simp
  have "int64 (a + VotingPower v) = a + VotingPower v"
    using Cons.prems v rest by (intro int64_id) simp_all
  moreover have "foldl (\<lambda>acc v. int64 (acc + VotingPower v)) (a + VotingPower v) vals =
      a + VotingPower v + sum_list (map VotingPower vals)"
    using Cons.prems v by (intro Cons.IH) simp_all
  ultimately show ?case by simp
qed

lemma TotalVotingPower_sum:
  assumes "no_overflow vals"
  shows "TotalVotingPower vals = sum_list (map VotingPower vals)"
proof -
  have "0 \<le> sum_list (map VotingPower vals)"
    using assms by (simp add: no_overflow_def powers_sum_nonneg)
  with assms have "0 + sum_list (map VotingPower vals) < 2 ^ 63"
    by (simp add: no_overflow_def)
  with assms show ?thesis
    unfolding TotalVotingPower_def no_overflow_def
    using foldl_int64_sum [of vals 0] by simp
qed

lemma total_as_sum:
  "sum_list (map VotingPower vals) = (\<Sum>j<length vals. VotingPower (vals ! j))"
proof -
  have "sum_list (map VotingPower vals) = (\<Sum>j = 0..<length vals. map VotingPower vals ! j)"
    using sum_list_sum_nth [of "map VotingPower vals"] by simp
  also have "\<dots> = (\<Sum>j = 0..<length vals. VotingPower (vals ! j))"
    by (rule sum.cong) simp_all
  finally show ?thesis by (simp add: atLeast0LessThan)
qed

lemma slot_power_bounds:
  assumes "list_all (\<lambda>v. 0 \<le> VotingPower v) (valSet voteSet)"
    and "j < length (valSet voteSet)"
  shows "0 \<le> slot_power env voteSet K j"
    and "K \<noteq> K' \<Longrightarrow> slot_power env voteSet K j + slot_power env voteSet K' j
                     \<le> VotingPower (valSet voteSet ! j)"
  using assms by (auto simp add: slot_power_def list_all_length split: option.splits)

lemma counted_two_keys:
  assumes nonneg: "list_all (\<lambda>v. 0 \<le> VotingPower v) (valSet voteSet)"
    and len: "length (votes voteSet) = length (valSet voteSet)"
    and i: "i < length (votes voteSet)" and empty: "votes voteSet ! i = None"
    and keys: "K \<noteq> K'"
  shows "counted env voteSet K + counted env voteSet K' + VotingPower (valSet voteSet ! i)
           \<le> sum_list (map VotingPower (valSet voteSet))"
proof -
  let ?n = "length (votes voteSet)"
  let ?p = "\<lambda>j. VotingPower (valSet voteSet ! j)"
  let ?d = "\<lambda>j. if j = i then ?p i else 0"
  have each: "slot_power env voteSet K j + slot_power env voteSet K' j \<le> ?p j - ?d j"
    if "j \<in> {..<?n}" for j
  proof (cases "j = i")
    case True
    with empty show ?thesis by (simp add: slot_power_def)
  next
    case False
    with that slot_power_bounds(2) [OF nonneg _ keys, of j env] len show ?thesis by simp
  qed
  have "counted env voteSet K + counted env voteSet K' =
        (\<Sum>j<?n. slot_power env voteSet K j + slot_power env voteSet K' j)"
    by (simp add: counted_def sum.distrib)
  also have "\<dots> \<le> (\<Sum>j<?n. ?p j - ?d j)"
    by (rule sum_mono) (rule each)
  also have "\<dots> = (\<Sum>j<?n. ?p j) - (\<Sum>j<?n. ?d j)"
    by (simp add: sum_subtractf)
  also have "(\<Sum>j<?n. ?d j) = ?p i"
    using i by (simp add: sum.delta)
  finally show ?thesis
    by (simp add: total_as_sum len)
qed

lemma counted_nonneg:
  assumes "list_all (\<lambda>v. 0 \<le> VotingPower v) (valSet voteSet)"
    and "length (votes voteSet) = length (valSet voteSet)"
  shows "0 \<le> counted env voteSet K"
  unfolding counted_def
proof (rule sum_nonneg)
  fix j assume "j \<in> {..<length (votes voteSet)}"
  with assms show "0 \<le> slot_power env voteSet K j"
    by (simp add: slot_power_bounds(1))
qed

lemma counted_one_key:
  assumes nonneg: "list_all (\<lambda>v. 0 \<le> VotingPower v) (valSet voteSet)"
    and len: "length (votes voteSet) = length (valSet voteSet)"
    and i: "i < length (votes voteSet)" and empty: "votes voteSet ! i = None"
  shows "counted env voteSet K + VotingPower (valSet voteSet ! i)
           \<le> sum_list (map VotingPower (valSet voteSet))"
proof -
  have "K \<noteq> 0 # K" by simp
  from counted_two_keys [OF nonneg len i empty this, of env]
    counted_nonneg [OF nonneg len, of env "0 # K"]
  show ?thesis by simp
qed

lemma counted_stored:
  assumes i: "i < length (votes voteSet)" and empty: "votes voteSet ! i = None"
    and stored: "votes voteSet' = (votes voteSet)[i := Some vote]"
    and same: "valSet voteSet' = valSet voteSet"
  shows "counted env voteSet' K =
           counted env voteSet K +
           (if blockKey env vote = K then VotingPower (valSet voteSet ! i) else 0)"
proof -
  let ?n = "length (votes voteSet)"
  let ?d = "\<lambda>j. if j = i then (if blockKey env vote = K then VotingPower (valSet voteSet ! i) else 0)
                else 0"
  have each: "slot_power env voteSet' K j = slot_power env voteSet K j + ?d j"
    if "j \<in> {..<?n}" for j
    using that i empty
    by (cases "j = i") (simp_all add: slot_power_def stored same split: option.splits)
  have "counted env voteSet' K = (\<Sum>j<?n. slot_power env voteSet' K j)"
    by (simp add: counted_def stored)
  also have "\<dots> = (\<Sum>j<?n. slot_power env voteSet K j + ?d j)"
    by (rule sum.cong) (simp_all add: each)
  also have "\<dots> = counted env voteSet K + (\<Sum>j<?n. ?d j)"
    by (simp add: counted_def sum.distrib)
  also have "(\<Sum>j<?n. ?d j) =
      (if blockKey env vote = K then VotingPower (valSet voteSet ! i) else 0)"
    using i by (simp add: sum.delta)
  finally show ?thesis .
qed

lemma addVote_stored_or_unchanged:
  assumes "addVote env voteSet val valIndex vote = Inr (res, voteSet')"
  shows "voteSet' = voteSet \<or>
         (0 \<le> valIndex \<and> valIndex < int (length (votes voteSet)) \<and>
          votes voteSet ! nat valIndex = None \<and>
          voteSet' =
            (let t = int64 (tally (votesByBlock voteSet) (blockKey env vote) + VotingPower val);
                 stored = voteSet\<lparr>votes := (votes voteSet)[nat valIndex := Some vote],
                                  votesBitArray := SetIndex (votesBitArray voteSet) valIndex True,
                                  votesByBlock := (votesByBlock voteSet)(blockKey env vote \<mapsto> t),
                                  totalVotes := int64 (totalVotes voteSet + VotingPower val)\<rparr>;
                 thr = quot (int64 (TotalVotingPower (valSet voteSet) * 2)) 3
             in if thr < t \<and> int64 (t - VotingPower val) \<le> thr
                then stored\<lparr>maj23Hash := BlockHash vote, maj23Parts := BlockParts vote,
                             maj23Exists := True\<rparr>
                else stored))"
proof (cases "votes voteSet ! nat valIndex")
  case None
  with assms show ?thesis
    by (auto simp add: addVote_def blockKey_def Let_def split: if_splits)
next
  case (Some existingVote)
  with assms have "voteSet' = voteSet"
    by (simp add: addVote_def split: if_splits)
  then show ?thesis by simp
qed

lemma addVote_cases:
  assumes "addVote env voteSet val valIndex vote = Inr (res, voteSet')"
  obtains (unchanged) "voteSet' = voteSet"
  | (stored) "0 \<le> valIndex" and "valIndex < int (length (votes voteSet))"
      and "votes voteSet ! nat valIndex = None"
      and "voteSet' =
        (let t = int64 (tally (votesByBlock voteSet) (blockKey env vote) + VotingPower val);
             stored = voteSet\<lparr>votes := (votes voteSet)[nat valIndex := Some vote],
                              votesBitArray := SetIndex (votesBitArray voteSet) valIndex True,
                              votesByBlock := (votesByBlock voteSet)(blockKey env vote \<mapsto> t),
                              totalVotes := int64 (totalVotes voteSet + VotingPower val)\<rparr>;
             thr = quot (int64 (TotalVotingPower (valSet voteSet) * 2)) 3
         in if thr < t \<and> int64 (t - VotingPower val) \<le> thr
            then stored\<lparr>maj23Hash := BlockHash vote, maj23Parts := BlockParts vote,
                         maj23Exists := True\<rparr>
            else stored)"
proof -
  from addVote_stored_or_unchanged [OF assms] show thesis
  proof (elim disjE conjE)
    assume "voteSet' = voteSet"
    then show thesis by (rule unchanged)
  next
    assume "0 \<le> valIndex" and "valIndex < int (length (votes voteSet))"
      and "votes voteSet ! nat valIndex = None"
      and "voteSet' =
        (let t = int64 (tally (votesByBlock voteSet) (blockKey env vote) + VotingPower val);
             stored = voteSet\<lparr>votes := (votes voteSet)[nat valIndex := Some vote],
                              votesBitArray := SetIndex (votesBitArray voteSet) valIndex True,
                              votesByBlock := (votesByBlock voteSet)(blockKey env vote \<mapsto> t),
                              totalVotes := int64 (totalVotes voteSet + VotingPower val)\<rparr>;
             thr = quot (int64 (TotalVotingPower (valSet voteSet) * 2)) 3
         in if thr < t \<and> int64 (t - VotingPower val) \<le> thr
            then stored\<lparr>maj23Hash := BlockHash vote, maj23Parts := BlockParts vote,
                         maj23Exists := True\<rparr>
            else stored)"
    then show thesis by (rule stored)
  qed
qed

lemma two_majorities_exceed_total:
  fixes T :: int
  assumes "(2 * T) div 3 < a" and "(2 * T) div 3 < b" and "a + b \<le> T" and "0 \<le> T"
  shows False
  using assms by arith

lemma addVote_keeps_latch:
  assumes wf: "no_overflow (valSet voteSet)" and inv: "tallied env voteSet"
    and lookup: "GetByIndex (valSet voteSet) valIndex = Some val"
    and add: "addVote env voteSet val valIndex vote = Inr (res, voteSet')"
  shows "tallied env voteSet' \<and>
         (if maj23Exists voteSet
          then TwoThirdsMajority (Some voteSet') = TwoThirdsMajority (Some voteSet)
          else True)"
proof -
  define i where "i = nat valIndex"
  define K where "K = blockKey env vote"
  define p where "p = VotingPower val"
  define T where "T = sum_list (map VotingPower (valSet voteSet))"
  define thr where "thr = (2 * T) div 3"
  define stored where "stored =
    voteSet\<lparr>votes := (votes voteSet)[i := Some vote],
            votesBitArray := SetIndex (votesBitArray voteSet) valIndex True,
            votesByBlock := (votesByBlock voteSet)(K \<mapsto> counted env voteSet K + p),
            totalVotes := int64 (totalVotes voteSet + p)\<rparr>"
  define latched where "latched =
    stored\<lparr>maj23Hash := BlockHash vote, maj23Parts := BlockParts vote, maj23Exists := True\<rparr>"
  have len: "length (votes voteSet) = length (valSet voteSet)"
    and tallies: "\<And>K'. tally (votesByBlock voteSet) K' = counted env voteSet K'"
    using inv by (simp_all add: tallied_def)
  have maj: "quot (int64 (TotalVotingPower (valSet voteSet) * 2)) 3
        < counted env voteSet (maj23Hash voteSet @ BinaryBytes env (maj23Parts voteSet))"
    if "maj23Exists voteSet"
  proof -
    from inv that have "quot (int64 (TotalVotingPower (valSet voteSet) * 2)) 3
        < tally (votesByBlock voteSet) (maj23Hash voteSet @ BinaryBytes env (maj23Parts voteSet))"
      unfolding tallied_def by auto
    then show ?thesis by (simp add: tallies)
  qed
  have nonneg: "list_all (\<lambda>v. 0 \<le> VotingPower v) (valSet voteSet)"
    and T2: "2 * T < 2 ^ 63"
    using wf by (simp_all add: no_overflow_def T_def)
  have T0: "0 \<le> T" unfolding T_def by (rule powers_sum_nonneg [OF nonneg])
  have total: "TotalVotingPower (valSet voteSet) = T"
    unfolding T_def by (rule TotalVotingPower_sum [OF wf])
  have thr_eq: "quot (int64 (TotalVotingPower (valSet voteSet) * 2)) 3 = thr"
    using T0 T2 by (simp add: total thr_def int64_id quot_nonneg mult.commute)
  from add show ?thesis
  proof (cases rule: addVote_cases)
    case unchanged
    with inv show ?thesis by simp
  next
    case stored
    note added = stored(4)
    from stored have i: "i < length (votes voteSet)" and empty: "votes voteSet ! i = None"
      by (simp_all add: i_def)
    have val: "val = valSet voteSet ! i"
      using lookup by (simp add: GetByIndex_def i_def split: if_splits)
    have p0: "0 \<le> p"
      using nonneg i len by (simp add: p_def val list_all_length)
    have c0: "0 \<le> counted env voteSet K"
      by (rule counted_nonneg [OF nonneg len])
    have bound: "counted env voteSet K + p \<le> T"
      unfolding p_def val T_def by (rule counted_one_key [OF nonneg len i empty])
    have t: "int64 (tally (votesByBlock voteSet) K + p) = counted env voteSet K + p"
      using c0 p0 bound T2 T0 by (simp add: tallies int64_id)
    have prev: "int64 (counted env voteSet K + p - p) = counted env voteSet K"
      using c0 bound p0 T2 T0 by (simp add: int64_id)
    have vs': "voteSet' =
        (if thr < counted env voteSet K + p \<and> counted env voteSet K \<le> thr then latched else stored)"
      using added t prev thr_eq
      by (simp add: Let_def K_def [symmetric] p_def [symmetric] i_def [symmetric]
            stored_def latched_def)
    have stored_votes: "votes stored = (votes voteSet)[i := Some vote]"
      "valSet stored = valSet voteSet" "votes latched = (votes voteSet)[i := Some vote]"
      "valSet latched = valSet voteSet"
      by (simp_all add: stored_def latched_def)
    have counted_new: "counted env voteSet' K' =
        counted env voteSet K' + (if K = K' then p else 0)" for K'
    proof -
      have "votes voteSet' = (votes voteSet)[i := Some vote]" "valSet voteSet' = valSet voteSet"
        using vs' stored_votes by (simp_all split: if_splits)
      from counted_stored [OF i empty this, of env K'] show ?thesis
        by (simp add: K_def p_def val)
    qed
    have tally_new: "tally (votesByBlock voteSet') K' = counted env voteSet' K'" for K'
    proof -
      have "votesByBlock voteSet' = (votesByBlock voteSet)(K \<mapsto> counted env voteSet K + p)"
        using vs' by (simp add: stored_def latched_def split: if_splits)
      then show ?thesis
        by (simp add: counted_new tally_def tallies [symmetric, unfolded tally_def])
    qed
    have len_new: "length (votes voteSet') = length (valSet voteSet')"
      using vs' len by (simp add: stored_def latched_def split: if_splits)
    have thr_new: "quot (int64 (TotalVotingPower (valSet voteSet') * 2)) 3 = thr"
      using vs' thr_eq by (simp add: stored_def latched_def split: if_splits)
    have no_second: "\<not> (thr < counted env voteSet K + p \<and> counted env voteSet K \<le> thr)"
      if latch: "maj23Exists voteSet"
    proof
      assume cross: "thr < counted env voteSet K + p \<and> counted env voteSet K \<le> thr"
      define L where "L = maj23Hash voteSet @ BinaryBytes env (maj23Parts voteSet)"
      have big: "thr < counted env voteSet L"
        using maj [OF latch] by (simp add: thr_eq L_def)
      with cross have "K \<noteq> L" by auto
      from counted_two_keys [OF nonneg len i empty this, of env]
      have "(counted env voteSet K + p) + counted env voteSet L \<le> T"
        by (simp add: p_def val T_def)
      with cross big T0 show False
        unfolding thr_def by (intro two_majorities_exceed_total [of T]) simp_all
    qed
    have keeps: "TwoThirdsMajority (Some voteSet') = TwoThirdsMajority (Some voteSet)"
      if latch: "maj23Exists voteSet"
      using vs' no_second [OF latch] latch
      by (simp add: TwoThirdsMajority_def stored_def)
    have maj_new: "thr < tally (votesByBlock voteSet')
        (maj23Hash voteSet' @ BinaryBytes env (maj23Parts voteSet'))"
      if latch': "maj23Exists voteSet'"
    proof (cases "thr < counted env voteSet K + p \<and> counted env voteSet K \<le> thr")
      case True
      with vs' have "maj23Hash voteSet' @ BinaryBytes env (maj23Parts voteSet') = K"
        by (simp add: latched_def K_def blockKey_def)
      with True show ?thesis by (simp add: tally_new counted_new)
    next
      case False
      with vs' latch' have old: "maj23Exists voteSet"
        and same: "maj23Hash voteSet' = maj23Hash voteSet" "maj23Parts voteSet' = maj23Parts voteSet"
        by (simp_all add: stored_def)
      from maj [OF old] p0 show ?thesis
        by (simp add: same tally_new counted_new thr_eq)
    qed
    have "tallied env voteSet'"
      using len_new tally_new maj_new by (simp add: tallied_def thr_new)
    with keeps show ?thesis by simp
  qed
qed

lemma NewVoteSet_tallied:
  assumes "NewVoteSet height round type vals = Inr voteSet"
  shows "tallied env voteSet \<and> valSet voteSet = vals \<and> \<not> maj23Exists voteSet"
proof -
  from assms have vs: "voteSet =
      \<lparr>vs_height = height, vs_round = round, vs_type = type, valSet = vals,
       votes = replicate (length vals) None, votesBitArray = NewBitArray (Size vals),
       votesByBlock = Map.empty, totalVotes = 0,
       maj23Hash = [], maj23Parts = PartSetHeader_zero, maj23Exists = False\<rparr>"
    by (simp add: NewVoteSet_def Size_def split: if_splits)
  have "counted env voteSet K = 0" for K
    by (simp add: counted_def slot_power_def vs)
  then show ?thesis
    by (simp add: tallied_def tally_def) (simp add: vs)
qed

lemma addVote_valSet:
  assumes "addVote env voteSet val valIndex vote = Inr (res, voteSet')"
  shows "valSet voteSet' = valSet voteSet"
  using assms by (cases rule: addVote_cases) (simp_all add: Let_def)

lemma AddByIndex_returns:
  assumes "length (votes voteSet) = length (valSet voteSet)"
  shows "\<exists>res voteSet'. VoteSet_AddByIndex env voteSet valIndex vote = Inr (res, voteSet')"
proof (cases "GetByIndex (valSet voteSet) valIndex")
  case None
  then show ?thesis by (auto simp add: VoteSet_AddByIndex_def addByIndex_def)
next
  case (Some val)
  then have range: "0 \<le> valIndex" "valIndex < int (length (votes voteSet))"
    using assms by (simp_all add: GetByIndex_def split: if_splits)
  have "\<exists>res voteSet'. addVote env voteSet val valIndex vote = Inr (res, voteSet')"
  proof (cases "votes voteSet ! nat valIndex")
    case None
    with range show ?thesis by (auto simp add: addVote_def Let_def)
  next
    case (Some existingVote)
    with range show ?thesis by (auto simp add: addVote_def)
  qed
  with Some show ?thesis by (simp add: AddByIndex_addVote)
qed

lemma GetByAddress_from_GetByIndex:
  assumes "GetByAddress_from k vals address = Some (valIndex, val)"
  shows "int k \<le> valIndex \<and> GetByIndex vals (valIndex - int k) = Some val"
  using assms
proof (induction vals arbitrary: k)
  case Nil
  then show ?case by simp
next
  case (Cons v vals)
  show ?case
  proof (cases "Address v = address")
    case True
    with Cons.prems show ?thesis by (simp add: GetByIndex_def)
  next
    case False
    with Cons.prems have "GetByAddress_from (Suc k) vals address = Some (valIndex, val)"
      by simp
    from Cons.IH [OF this]
    have le: "int (Suc k) \<le> valIndex" and at: "GetByIndex vals (valIndex - int (Suc k)) = Some val"
      by simp_all
    from le have "nat (valIndex - int k) = Suc (nat (valIndex - int (Suc k)))" by simp
    with le at show ?thesis by (simp add: GetByIndex_def split: if_splits)
  qed
qed

lemma GetByAddress_GetByIndex:
  "GetByAddress vals address = Some (valIndex, val) \<Longrightarrow> GetByIndex vals valIndex = Some val"
  using GetByAddress_from_GetByIndex [of 0 vals address valIndex val]
  by (simp add: GetByAddress_def)

lemma latch_stable_without_overflow:
  assumes "no_overflow (valSet voteSet)" and "tallied env voteSet" and "maj23Exists voteSet"
  shows "\<exists>voteSet'. AddByIndex_all env voteSet adds = Inr voteSet' \<and>
           TwoThirdsMajority (Some voteSet') = TwoThirdsMajority (Some voteSet)"
  using assms
proof (induction adds arbitrary: voteSet)
  case Nil
  then show ?case by simp
next
  case (Cons a adds)
  obtain valIndex vote where a: "a = (valIndex, vote)" by (cases a)
  have len: "length (votes voteSet) = length (valSet voteSet)"
    using Cons.prems(2) by (simp add: tallied_def)
  from AddByIndex_returns [OF len] obtain res next_set where
    ret: "VoteSet_AddByIndex env voteSet valIndex vote = Inr (res, next_set)"
    by blast
  have step: "tallied env next_set \<and> valSet next_set = valSet voteSet \<and>
      TwoThirdsMajority (Some next_set) = TwoThirdsMajority (Some voteSet)"
  proof (cases "GetByIndex (valSet voteSet) valIndex")
    case None
    with ret have "next_set = voteSet"
      by (simp add: VoteSet_AddByIndex_def addByIndex_def)
    with Cons.prems show ?thesis by simp
  next
    case (Some val)
    with ret have add: "addVote env voteSet val valIndex vote = Inr (res, next_set)"
      by (simp add: AddByIndex_addVote)
    from addVote_keeps_latch [OF Cons.prems(1,2) Some add] Cons.prems(3) addVote_valSet [OF add]
    show ?thesis by simp
  qed
  then have latched: "maj23Exists next_set"
    using Cons.prems(3) by (simp add: TwoThirdsMajority_def split: if_splits)
  from step Cons.prems(1) have "no_overflow (valSet next_set)" by simp
  from Cons.IH [OF this _ latched] step obtain voteSet' where
    "AddByIndex_all env next_set adds = Inr voteSet'"
    "TwoThirdsMajority (Some voteSet') = TwoThirdsMajority (Some next_set)"
    by blast
  with step ret a show ?case by simp
qed

end
